theory Spec2Isabelle
  imports Main "HOL-Library.AList"
begin

section \<open>JSON values and the JavaScript operations the handlers apply to them\<close>

text \<open>
  The client (\<^verbatim>\<open>src/components/chat/EnhancedClaudeSession.tsx\<close>) and the server
  (\<^verbatim>\<open>server/index.js\<close>) handle untyped JSON: \<^verbatim>\<open>parsed\<close>, \<^verbatim>\<open>item\<close> and \<^verbatim>\<open>chunk\<close> are
  \<^verbatim>\<open>any\<close>. A value is therefore a \<open>jsval\<close>; a field that is absent reads as
  \<open>JUndefined\<close>. Numbers are carried as integers: the handlers only test them for
  truthiness, compare them as \<^verbatim>\<open>Map\<close> keys and copy them.
\<close>

datatype jsval =
    JUndefined
  | JNull
  | JBool bool
  | JNum int
  | JStr string
  | JArr "jsval list"
  | JObj "(string \<times> jsval) list"

text \<open>JavaScript truthiness, as used by \<^verbatim>\<open>if (v)\<close>, \<^verbatim>\<open>a && b\<close>, \<^verbatim>\<open>a || b\<close> and \<^verbatim>\<open>!v\<close>.\<close>

fun truthy :: "jsval \<Rightarrow> bool" where
  "truthy JUndefined = False"
| "truthy JNull = False"
| "truthy (JBool b) = b"
| "truthy (JNum n) = (n \<noteq> 0)"
| "truthy (JStr s) = (s \<noteq> [])"
| "truthy (JArr xs) = True"
| "truthy (JObj kvs) = True"

text \<open>\<^verbatim>\<open>a || b\<close>\<close>

definition js_or :: "jsval \<Rightarrow> jsval \<Rightarrow> jsval" where
  "js_or a b = (if truthy a then a else b)"

text \<open>\<^verbatim>\<open>v == null\<close>: the values on which a plain property read \<^verbatim>\<open>v.k\<close> throws a TypeError.\<close>

fun nullish :: "jsval \<Rightarrow> bool" where
  "nullish JUndefined = True"
| "nullish JNull = True"
| "nullish v = False"

text \<open>
  \<open>jget v k\<close> is the optional read \<^verbatim>\<open>v?.k\<close>, and the plain read \<^verbatim>\<open>v.k\<close> where \<open>v\<close> is
  not nullish. None of the keys the handlers read is a built-in property of a string,
  number, boolean or array, so only objects answer; an object lists each key once.
\<close>

fun jget :: "jsval \<Rightarrow> string \<Rightarrow> jsval" where
  "jget (JObj kvs) k = (case map_of kvs k of Some v \<Rightarrow> v | None \<Rightarrow> JUndefined)"
| "jget v k = JUndefined"

text \<open>\<^verbatim>\<open>Array.isArray(v)\<close> and the elements \<^verbatim>\<open>forEach\<close> visits.\<close>

fun isArray :: "jsval \<Rightarrow> bool" where
  "isArray (JArr xs) = True"
| "isArray v = False"

fun elements :: "jsval \<Rightarrow> jsval list" where
  "elements (JArr xs) = xs"
| "elements v = []"

text \<open>
  Arrays and objects are compared by reference. Every \<^verbatim>\<open>JSON.parse\<close> builds fresh ones,
  so as a \<^verbatim>\<open>Map\<close> key such a value is never found again.
\<close>

fun is_ref :: "jsval \<Rightarrow> bool" where
  "is_ref (JArr xs) = True"
| "is_ref (JObj kvs) = True"
| "is_ref v = False"

text \<open>
  The built-ins of the JavaScript runtime whose result depends on Unicode or on number
  formatting are parameters: \<^verbatim>\<open>JSON.parse\<close> (\<open>None\<close> when it throws a SyntaxError), the
  string conversion of a value that is not a string,
  \<^verbatim>\<open>String.prototype.toLowerCase\<close> and \<^verbatim>\<open>String.prototype.trim\<close>.
\<close>

record runtime =
  json_parse :: "string \<Rightarrow> jsval option"
  to_string :: "jsval \<Rightarrow> string"
  toLowerCase :: "string \<Rightarrow> string"
  trim :: "string \<Rightarrow> string"

text \<open>
  The string conversion of \<^verbatim>\<open>`${v}`\<close>, \<^verbatim>\<open>'' + v\<close> and \<^verbatim>\<open>v.toString()\<close>: a string is itself.
\<close>

definition js_to_string :: "runtime \<Rightarrow> jsval \<Rightarrow> string" where
  "js_to_string rt v = (case v of JStr s \<Rightarrow> s | other \<Rightarrow> to_string rt other)"

text \<open>
  A statement that throws keeps the state changes made before the throw: the React
  setters and the local \<^verbatim>\<open>Map\<close> are not rolled back.
\<close>

datatype 'a outcome = Normal 'a | Threw 'a

fun settle :: "'a outcome \<Rightarrow> 'a" where
  "settle (Normal s) = s"
| "settle (Threw s) = s"

section \<open>The client's data: \<^verbatim>\<open>src/types/claude.ts\<close>\<close>

datatype msg_type = User | Assistant | System | Result | ToolUse | ToolResult | Init | Debug

text \<open>\<^verbatim>\<open>ClaudeStreamMessage\<close>; the fields \<^verbatim>\<open>id\<close> and \<^verbatim>\<open>type\<close> are \<open>mid\<close> and \<open>mtype\<close>.\<close>

record msg =
  mid :: string
  mtype :: msg_type
  timestamp :: nat
  content :: jsval
  sessionId :: jsval
  model :: jsval
  tools :: jsval
  toolName :: jsval
  toolInput :: jsval
  toolResult :: jsval
  toolId :: jsval
  success :: jsval
  duration :: jsval
  cost :: jsval
  usage :: jsval
  messageId :: jsval
  error :: jsval

text \<open>An object literal that sets only \<^verbatim>\<open>id\<close>, \<^verbatim>\<open>type\<close> and \<^verbatim>\<open>timestamp\<close>.\<close>

definition blank :: "string \<Rightarrow> msg_type \<Rightarrow> nat \<Rightarrow> msg" where
  "blank i t ts = \<lparr>mid = i, mtype = t, timestamp = ts, content = JUndefined,
     sessionId = JUndefined, model = JUndefined, tools = JUndefined, toolName = JUndefined,
     toolInput = JUndefined, toolResult = JUndefined, toolId = JUndefined,
     success = JUndefined, duration = JUndefined, cost = JUndefined, usage = JUndefined,
     messageId = JUndefined, error = JUndefined\<rparr>"

text \<open>\<^verbatim>\<open>ToolExecution\<close>; its fields carry the prefix \<open>te_\<close>.\<close>

record ToolExecution =
  te_id :: jsval
  te_name :: jsval
  te_input :: jsval
  te_result :: jsval
  te_isComplete :: bool
  te_startTime :: nat
  te_endTime :: "nat option"
  te_error :: jsval

text \<open>
  A \<^verbatim>\<open>Map<string, ToolExecution>\<close> in insertion order. \<^verbatim>\<open>get\<close> finds a key by value when it
  is a primitive and never when it is a fresh array or object; \<^verbatim>\<open>set\<close> replaces the
  value of a key that is found and appends a new entry otherwise.
\<close>

type_synonym table = "(jsval \<times> ToolExecution) list"

definition map_get :: "table \<Rightarrow> jsval \<Rightarrow> ToolExecution option" where
  "map_get t k = (if is_ref k then None else map_of t k)"

definition map_set :: "jsval \<Rightarrow> ToolExecution \<Rightarrow> table \<Rightarrow> table" where
  "map_set k v t = (if is_ref k then t @ [(k, v)] else AList.update k v t)"

text \<open>
  The component's React state (\<^verbatim>\<open>useState\<close>) and the variables local to one call of
  \<^verbatim>\<open>handleSubmit\<close>. A functional update \<^verbatim>\<open>setMessages(prev => ...)\<close> is applied in the
  order it was queued, so the state is passed along.
\<close>

record session =
  messages :: "msg list"
  input :: string
  isGenerating :: bool
  toolExecutions :: table

record locals =
  currentAssistantMessage :: "msg option"
  currentToolExecutions :: table

section \<open>\<^verbatim>\<open>EnhancedClaudeSession\<close>: one frame of the stream\<close>

text \<open>
  \<^verbatim>\<open>Date.now()\<close> is the argument \<open>now\<close>: the clock is read once for the synchronous
  handling of one chunk.
\<close>

definition addMessage :: "runtime \<Rightarrow> nat \<Rightarrow> msg \<Rightarrow> session \<Rightarrow> session" where
  "addMessage rt now m s =
     s\<lparr>messages := messages s @
        [m\<lparr>mid := (if mid m = [] then js_to_string rt (JNum (int now)) else mid m),
           timestamp := (if timestamp m = 0 then now else timestamp m)\<rparr>]\<rparr>"

text \<open>\<^verbatim>\<open>case 'init'\<close>\<close>

definition on_init :: "runtime \<Rightarrow> nat \<Rightarrow> jsval \<Rightarrow> session \<Rightarrow> session" where
  "on_init rt now parsed s =
     addMessage rt now
       ((blank (''init-'' @ js_to_string rt (JNum (int now))) Init now)
          \<lparr>sessionId := jget parsed ''sessionId'', model := jget parsed ''model'',
           tools := jget parsed ''tools''\<rparr>) s"

text \<open>
  \<^verbatim>\<open>case 'text'\<close>: the first text frame of the turn creates the assistant message with
  empty content and appends it (\<open>open_assistant\<close>); every text frame then sets the
  content of each message that carries its id to \<^verbatim>\<open>parsed.fullText || parsed.text\<close>.
\<close>

definition set_content :: "string \<Rightarrow> jsval \<Rightarrow> msg \<Rightarrow> msg" where
  "set_content i c m = (if mid m = i then m\<lparr>content := c\<rparr> else m)"

definition open_assistant ::
  "runtime \<Rightarrow> nat \<Rightarrow> jsval \<Rightarrow> locals \<times> session \<Rightarrow> locals \<times> session" where
  "open_assistant rt now parsed ls =
     (case currentAssistantMessage (fst ls) of
        None \<Rightarrow>
          (let m = (blank (''assistant-'' @ js_to_string rt (JNum (int now))) Assistant now)
                     \<lparr>content := JStr [], messageId := jget parsed ''messageId''\<rparr>
           in ((fst ls)\<lparr>currentAssistantMessage := Some m\<rparr>, addMessage rt now m (snd ls)))
      | Some m \<Rightarrow> ls)"

definition on_text :: "runtime \<Rightarrow> nat \<Rightarrow> jsval \<Rightarrow> locals \<times> session \<Rightarrow> locals \<times> session" where
  "on_text rt now parsed ls =
     (let ls1 = open_assistant rt now parsed ls;
          updatedContent = js_or (jget parsed ''fullText'') (jget parsed ''text'')
      in (fst ls1,
          (case currentAssistantMessage (fst ls1) of
             None \<Rightarrow> snd ls1
           | Some m \<Rightarrow>
               (snd ls1)\<lparr>messages := map (set_content (mid m) updatedContent) (messages (snd ls1))\<rparr>)))"

text \<open>\<^verbatim>\<open>case 'result'\<close>\<close>

definition on_result :: "runtime \<Rightarrow> nat \<Rightarrow> jsval \<Rightarrow> session \<Rightarrow> session" where
  "on_result rt now parsed s =
     addMessage rt now
       ((blank (''result-'' @ js_to_string rt (JNum (int now))) Result now)
          \<lparr>content := JStr ''Execution completed'', success := jget parsed ''success'',
           duration := jget parsed ''duration'', cost := jget parsed ''cost'',
           usage := jget parsed ''usage''\<rparr>) s"

text \<open>\<^verbatim>\<open>case 'error'\<close>\<close>

definition on_error :: "runtime \<Rightarrow> nat \<Rightarrow> jsval \<Rightarrow> session \<Rightarrow> session" where
  "on_error rt now parsed s =
     (addMessage rt now
        ((blank (''error-'' @ js_to_string rt (JNum (int now))) Result now)
           \<lparr>content := JStr (''Error: '' @ js_to_string rt (jget parsed ''error'')),
            success := JBool False, error := jget parsed ''error''\<rparr>) s)
     \<lparr>isGenerating := False\<rparr>"

text \<open>
  \<^verbatim>\<open>case 'debug'\<close>, the body of \<^verbatim>\<open>if (item.type === 'tool_use')\<close>: the invocation is
  recorded under \<^verbatim>\<open>item.id\<close> in the local table and in the React state, and a
  \<^verbatim>\<open>tool_use\<close> message is appended.
\<close>

definition begin_tool :: "runtime \<Rightarrow> nat \<Rightarrow> jsval \<Rightarrow> locals \<times> session \<Rightarrow> locals \<times> session" where
  "begin_tool rt now item ls =
     (let toolId = jget item ''id'';
          toolExecution = \<lparr>te_id = toolId, te_name = jget item ''name'',
            te_input = jget item ''input'', te_result = JUndefined,
            te_isComplete = False, te_startTime = now, te_endTime = None,
            te_error = JUndefined\<rparr>;
          l1 = (fst ls)\<lparr>currentToolExecutions :=
                 map_set toolId toolExecution (currentToolExecutions (fst ls))\<rparr>;
          s1 = (snd ls)\<lparr>toolExecutions := map_set toolId toolExecution (toolExecutions (snd ls))\<rparr>
      in (l1, addMessage rt now
            ((blank (''tool-use-'' @ js_to_string rt toolId) ToolUse now)
               \<lparr>toolName := jget item ''name'', toolInput := jget item ''input'',
                toolId := toolId\<rparr>) s1))"

text \<open>An item of an assistant message: \<^verbatim>\<open>item.type\<close> throws on \<^verbatim>\<open>null\<close>.\<close>

definition on_tool_use_item ::
  "runtime \<Rightarrow> nat \<Rightarrow> jsval \<Rightarrow> locals \<times> session \<Rightarrow> (locals \<times> session) outcome" where
  "on_tool_use_item rt now item ls =
     (if nullish item then Threw ls
      else if jget item ''type'' = JStr ''tool_use'' then Normal (begin_tool rt now item ls)
      else Normal ls)"

text \<open>
  The body of \<^verbatim>\<open>if (toolExecution)\<close> up to the \<^verbatim>\<open>tool_result\<close> message: the record is
  marked complete in both tables, under the same key, and the message is appended.
\<close>

definition complete_tool ::
  "runtime \<Rightarrow> nat \<Rightarrow> jsval \<Rightarrow> ToolExecution \<Rightarrow> locals \<times> session \<Rightarrow> locals \<times> session" where
  "complete_tool rt now item toolExecution ls =
     (let toolId = jget item ''tool_use_id'';
          err = (if truthy (jget item ''is_error'') then jget item ''content'' else JUndefined);
          updatedExecution = toolExecution\<lparr>te_result := jget item ''content'',
            te_isComplete := True, te_endTime := Some now, te_error := err\<rparr>;
          l1 = (fst ls)\<lparr>currentToolExecutions :=
                 map_set toolId updatedExecution (currentToolExecutions (fst ls))\<rparr>;
          s1 = (snd ls)\<lparr>toolExecutions := map_set toolId updatedExecution (toolExecutions (snd ls))\<rparr>
      in (l1, addMessage rt now
            ((blank (''tool-result-'' @ js_to_string rt toolId) ToolResult now)
               \<lparr>toolName := te_name toolExecution, toolInput := te_input toolExecution,
                toolResult := jget item ''content'', toolId := toolId, error := err\<rparr>) s1))"

text \<open>The message appended for a finished \<^verbatim>\<open>TodoWrite\<close>; it has no \<^verbatim>\<open>toolId\<close>.\<close>

definition todo_message :: "runtime \<Rightarrow> nat \<Rightarrow> jsval \<Rightarrow> msg" where
  "todo_message rt now todos =
     (blank (''todo-'' @ js_to_string rt (JNum (int now))) ToolResult now)
       \<lparr>toolName := JStr ''TodoWrite'', toolInput := JObj [(''todos'', todos)],
        toolResult := JStr ''Todo list updated successfully''\<rparr>"

text \<open>
  The receiver of a string method (\<^verbatim>\<open>.toLowerCase()\<close>, \<^verbatim>\<open>.substring()\<close>) or the argument
  of \<^verbatim>\<open>path.basename\<close>: the call throws unless it is a string.
\<close>

fun as_string :: "jsval \<Rightarrow> string option" where
  "as_string (JStr s) = Some s"
| "as_string v = None"

text \<open>
  An item of a user message. A \<^verbatim>\<open>tool_result\<close> item with a truthy \<^verbatim>\<open>tool_use_id\<close> is
  looked up in the local table; only when the invocation is found is it completed.
  \<^verbatim>\<open>toolExecution.name.toLowerCase()\<close> is evaluated after the result message was
  appended.
\<close>

definition on_tool_result_item ::
  "runtime \<Rightarrow> nat \<Rightarrow> jsval \<Rightarrow> locals \<times> session \<Rightarrow> (locals \<times> session) outcome" where
  "on_tool_result_item rt now item ls =
     (if nullish item then Threw ls
      else if jget item ''type'' = JStr ''tool_result'' \<and> truthy (jget item ''tool_use_id'') then
        (case map_get (currentToolExecutions (fst ls)) (jget item ''tool_use_id'') of
           None \<Rightarrow> Normal ls
         | Some toolExecution \<Rightarrow>
            (let ls1 = complete_tool rt now item toolExecution ls in
             case as_string (te_name toolExecution) of
               None \<Rightarrow> Threw ls1
             | Some name \<Rightarrow>
                 if toLowerCase rt name = ''todowrite''
                    \<and> truthy (jget (te_input toolExecution) ''todos'')
                 then Normal (fst ls1,
                        addMessage rt now
                          (todo_message rt now (jget (te_input toolExecution) ''todos'')) (snd ls1))
                 else Normal ls1))
      else Normal ls)"

text \<open>\<^verbatim>\<open>content.forEach(...)\<close>: a throw leaves the loop.\<close>

fun forEach :: "('a \<Rightarrow> 's \<Rightarrow> 's outcome) \<Rightarrow> 'a list \<Rightarrow> 's \<Rightarrow> 's outcome" where
  "forEach f [] s = Normal s"
| "forEach f (x # xs) s =
     (case f x s of Normal s1 \<Rightarrow> forEach f xs s1 | Threw s1 \<Rightarrow> Threw s1)"

text \<open>
  \<^verbatim>\<open>case 'debug'\<close>: the two \<^verbatim>\<open>if\<close> statements in turn; \<open>parsed\<close> is not nullish here.
\<close>

definition on_debug ::
  "runtime \<Rightarrow> nat \<Rightarrow> jsval \<Rightarrow> locals \<times> session \<Rightarrow> (locals \<times> session) outcome" where
  "on_debug rt now parsed ls =
     (let data = jget parsed ''data'';
          content = jget (jget data ''message'') ''content'';
          r1 = (if jget data ''type'' = JStr ''assistant'' \<and> truthy content \<and> isArray content
                then forEach (on_tool_use_item rt now) (elements content) ls
                else Normal ls)
      in case r1 of
           Threw ls1 \<Rightarrow> Threw ls1
         | Normal ls1 \<Rightarrow>
             if jget data ''type'' = JStr ''user'' \<and> truthy content \<and> isArray content
             then forEach (on_tool_result_item rt now) (elements content) ls1
             else Normal ls1)"

text \<open>
  \<^verbatim>\<open>switch (parsed.type)\<close>, inside the \<^verbatim>\<open>try\<close>: reading \<^verbatim>\<open>parsed.type\<close> throws on
  \<^verbatim>\<open>null\<close>; the switch has no \<^verbatim>\<open>default\<close>.
\<close>

definition on_parsed ::
  "runtime \<Rightarrow> nat \<Rightarrow> jsval \<Rightarrow> locals \<times> session \<Rightarrow> (locals \<times> session) outcome" where
  "on_parsed rt now parsed ls =
     (if nullish parsed then Threw ls
      else if jget parsed ''type'' = JStr ''init'' then Normal (fst ls, on_init rt now parsed (snd ls))
      else if jget parsed ''type'' = JStr ''text'' then Normal (on_text rt now parsed ls)
      else if jget parsed ''type'' = JStr ''result'' then Normal (fst ls, on_result rt now parsed (snd ls))
      else if jget parsed ''type'' = JStr ''debug'' then on_debug rt now parsed ls
      else if jget parsed ''type'' = JStr ''error'' then Normal (fst ls, on_error rt now parsed (snd ls))
      else Normal ls)"

text \<open>
  One line of a chunk: \<^verbatim>\<open>line.startsWith('data: ')\<close>, \<^verbatim>\<open>line.slice(6)\<close>, the sentinel, then
  \<^verbatim>\<open>JSON.parse\<close> and the switch inside \<^verbatim>\<open>try\<close>; the \<^verbatim>\<open>catch\<close> only logs.
\<close>

definition on_line :: "runtime \<Rightarrow> nat \<Rightarrow> string \<Rightarrow> locals \<times> session \<Rightarrow> locals \<times> session" where
  "on_line rt now line ls =
     (if take 6 line = ''data: '' then
        (let data = drop 6 line in
         if data = ''[DONE]'' then (fst ls, (snd ls)\<lparr>isGenerating := False\<rparr>)
         else (case json_parse rt data of
                 None \<Rightarrow> ls
               | Some parsed \<Rightarrow> settle (on_parsed rt now parsed ls)))
      else ls)"

text \<open>\<^verbatim>\<open>chunk.split('\n')\<close>\<close>

fun split_lines :: "string \<Rightarrow> string list" where
  "split_lines [] = [[]]"
| "split_lines (c # cs) =
     (if c = CHR 0x0A then [] # split_lines cs
      else (case split_lines cs of [] \<Rightarrow> [[c]] | l # ls \<Rightarrow> (c # l) # ls))"

text \<open>\<^verbatim>\<open>for (const line of lines)\<close> and the body of the \<^verbatim>\<open>while\<close> loop for one chunk.\<close>

fun on_lines :: "runtime \<Rightarrow> nat \<Rightarrow> string list \<Rightarrow> locals \<times> session \<Rightarrow> locals \<times> session" where
  "on_lines rt now [] ls = ls"
| "on_lines rt now (line # lines) ls = on_lines rt now lines (on_line rt now line ls)"

definition on_chunk :: "runtime \<Rightarrow> nat \<Rightarrow> string \<Rightarrow> locals \<times> session \<Rightarrow> locals \<times> session" where
  "on_chunk rt now chunk ls = on_lines rt now (split_lines chunk) ls"

text \<open>
  The \<^verbatim>\<open>while (true)\<close> loop over the chunks \<^verbatim>\<open>reader.read()\<close> delivers, each with the
  time it is handled at.
\<close>

fun on_chunks ::
  "runtime \<Rightarrow> (nat \<times> string) list \<Rightarrow> locals \<times> session \<Rightarrow> locals \<times> session" where
  "on_chunks rt [] ls = ls"
| "on_chunks rt ((now, chunk) # rest) ls = on_chunks rt rest (on_chunk rt now chunk ls)"

text \<open>
  The same loop seen after decoding: each frame that \<^verbatim>\<open>JSON.parse\<close> accepted goes through
  the switch inside \<^verbatim>\<open>try\<close>/\<^verbatim>\<open>catch\<close>.
\<close>

fun on_events ::
  "runtime \<Rightarrow> (nat \<times> jsval) list \<Rightarrow> locals \<times> session \<Rightarrow> locals \<times> session" where
  "on_events rt [] ls = ls"
| "on_events rt ((now, parsed) # rest) ls = on_events rt rest (settle (on_parsed rt now parsed ls))"

text \<open>
  The decoded frames that carry tool activity: a \<^verbatim>\<open>debug\<close> envelope around an assistant
  message with one \<^verbatim>\<open>tool_use\<close> item, or around a user message with one
  \<^verbatim>\<open>tool_result\<close> item.
\<close>

definition tool_use_event :: "jsval \<Rightarrow> jsval \<Rightarrow> jsval \<Rightarrow> jsval" where
  "tool_use_event k name inp =
     JObj [(''type'', JStr ''debug''),
           (''data'', JObj [(''type'', JStr ''assistant''),
              (''message'', JObj [(''content'',
                 JArr [JObj [(''type'', JStr ''tool_use''), (''id'', k), (''name'', name),
                             (''input'', inp)]])])])]"

definition tool_result_event :: "jsval \<Rightarrow> jsval \<Rightarrow> jsval \<Rightarrow> jsval" where
  "tool_result_event k result is_error =
     JObj [(''type'', JStr ''debug''),
           (''data'', JObj [(''type'', JStr ''user''),
              (''message'', JObj [(''content'',
                 JArr [JObj [(''type'', JStr ''tool_result''), (''tool_use_id'', k),
                             (''content'', result), (''is_error'', is_error)]])])])]"

section \<open>\<^verbatim>\<open>EnhancedClaudeSession\<close>: the component\<close>

text \<open>The variables \<^verbatim>\<open>handleSubmit\<close> declares before its loop.\<close>

definition initial_locals :: locals where
  "initial_locals = \<lparr>currentAssistantMessage = None, currentToolExecutions = []\<rparr>"

text \<open>
  \<^verbatim>\<open>handleSubmit\<close> up to the \<^verbatim>\<open>fetch\<close>: the guard, the user message, the cleared input and
  the flag. \<open>has_project\<close> is \<^verbatim>\<open>currentProject\<close> being set.
\<close>

definition submit_refused :: "runtime \<Rightarrow> bool \<Rightarrow> session \<Rightarrow> bool" where
  "submit_refused rt has_project s =
     (trim rt (input s) = [] \<or> isGenerating s \<or> \<not> has_project)"

definition begin_submit :: "runtime \<Rightarrow> nat \<Rightarrow> session \<Rightarrow> session" where
  "begin_submit rt now s =
     (addMessage rt now
        ((blank (js_to_string rt (JNum (int now))) User now)
           \<lparr>content := JStr (trim rt (input s))\<rparr>) s)
     \<lparr>input := [], isGenerating := True\<rparr>"

text \<open>
  The outer \<^verbatim>\<open>catch\<close> of \<^verbatim>\<open>handleSubmit\<close>: a rejected \<^verbatim>\<open>fetch\<close>, a response that is not
  ok, a missing body reader or a rejected \<^verbatim>\<open>reader.read()\<close>. \<open>err\<close> is the message of
  the \<^verbatim>\<open>Error\<close>, \<open>None\<close> when the thrown value is not an \<^verbatim>\<open>Error\<close>.
\<close>

definition on_failure :: "runtime \<Rightarrow> nat \<Rightarrow> string option \<Rightarrow> session \<Rightarrow> session" where
  "on_failure rt now err s =
     (let text = (case err of Some m \<Rightarrow> m | None \<Rightarrow> ''Unknown error'') in
      (addMessage rt now
         ((blank (''error-'' @ js_to_string rt (JNum (int now))) Result now)
            \<lparr>content := JStr (''Error: '' @ text), success := JBool False,
             error := JStr text\<rparr>) s)
      \<lparr>isGenerating := False\<rparr>)"

text \<open>\<^verbatim>\<open>stop\<close>, the handler of the stop button.\<close>

definition stop :: "session \<Rightarrow> session" where
  "stop s = s\<lparr>isGenerating := False\<rparr>"

text \<open>
  A call of \<^verbatim>\<open>handleSubmit\<close> suspends at \<^verbatim>\<open>await fetch\<close> and at every
  \<^verbatim>\<open>await reader.read()\<close>; between two suspensions the user interface and other calls
  run. The component is therefore the React state together with the calls made so far,
  each waiting for its response, reading its stream, or finished.
\<close>

datatype call = Fetching | Reading locals | Ended

datatype action =
    SetInput string
  | Submit nat bool
  | FetchFailed nat nat "string option"
  | FetchOk nat
  | Chunk nat nat string
  | ReadDone nat
  | ReadFailed nat nat "string option"
  | Stop

definition initial :: "session \<times> call list" where
  "initial = (\<lparr>messages = [], input = [], isGenerating = False, toolExecutions = []\<rparr>, [])"

text \<open>
  One step. An action on a call, given by its index, that is not in the state the action
  needs changes nothing.
\<close>

fun step :: "runtime \<Rightarrow> action \<Rightarrow> session \<times> call list \<Rightarrow> session \<times> call list" where
  "step rt (SetInput v) (s, cs) = (s\<lparr>input := v\<rparr>, cs)"
| "step rt (Submit now has_project) (s, cs) =
     (if submit_refused rt has_project s then (s, cs)
      else (begin_submit rt now s, cs @ [Fetching]))"
| "step rt (FetchFailed i now err) (s, cs) =
     (if i < length cs \<and> cs ! i = Fetching
      then (on_failure rt now err s, cs[i := Ended]) else (s, cs))"
| "step rt (FetchOk i) (s, cs) =
     (if i < length cs \<and> cs ! i = Fetching
      then (s, cs[i := Reading initial_locals]) else (s, cs))"
| "step rt (Chunk i now chunk) (s, cs) =
     (if i < length cs then
        (case cs ! i of
           Reading l \<Rightarrow>
             (let (l1, s1) = on_chunk rt now chunk (l, s) in (s1, cs[i := Reading l1]))
         | other \<Rightarrow> (s, cs))
      else (s, cs))"
| "step rt (ReadDone i) (s, cs) =
     (if i < length cs then
        (case cs ! i of Reading l \<Rightarrow> (s, cs[i := Ended]) | other \<Rightarrow> (s, cs))
      else (s, cs))"
| "step rt (ReadFailed i now err) (s, cs) =
     (if i < length cs then
        (case cs ! i of
           Reading l \<Rightarrow> (on_failure rt now err s, cs[i := Ended])
         | other \<Rightarrow> (s, cs))
      else (s, cs))"
| "step rt Stop (s, cs) = (stop s, cs)"

fun run :: "runtime \<Rightarrow> action list \<Rightarrow> session \<times> call list \<Rightarrow> session \<times> call list" where
  "run rt [] st = st"
| "run rt (a # as) st = run rt as (step rt a st)"

section \<open>\<^verbatim>\<open>server/index.js\<close>: the handler of \<^verbatim>\<open>POST /api/chat\<close>\<close>

text \<open>
  What the handler writes: \<open>Data v\<close> is \<^verbatim>\<open>res.write(`data: ${JSON.stringify(v)}\n\n`)\<close>,
  \<open>DoneMark\<close> is \<^verbatim>\<open>res.write('data: [DONE]\n\n')\<close>. A call of the handler ends in one of
  three ways: \<open>Json status body\<close>, the JSON body sent with a status and nothing else;
  \<open>EventStream ws\<close>, the event stream (status 200) with the frames \<open>ws\<close>, closed by
  \<^verbatim>\<open>res.end()\<close>; or \<open>Rejected ws\<close>, an exception that leaves the \<^verbatim>\<open>async\<close> handler after
  the frames \<open>ws\<close> were written, so that its promise rejects and neither the sentinel
  nor \<^verbatim>\<open>res.end()\<close> follows. \<open>wire_of\<close> are the frames written in each case.
\<close>

datatype wire = Data jsval | DoneMark

datatype response = Json nat jsval | EventStream "wire list" | Rejected "wire list"

fun wire_of :: "response \<Rightarrow> wire list" where
  "wire_of (Json status body) = []"
| "wire_of (EventStream ws) = ws"
| "wire_of (Rejected ws) = ws"

record emission =
  fullResponse :: string
  written :: "wire list"

definition emit :: "jsval \<Rightarrow> emission \<Rightarrow> emission" where
  "emit v st = st\<lparr>written := written st @ [Data v]\<rparr>"

text \<open>\<^verbatim>\<open>v[0]\<close> on a value that is not nullish.\<close>

fun index0 :: "jsval \<Rightarrow> jsval" where
  "index0 (JArr xs) = (case xs of [] \<Rightarrow> JUndefined | x # rest \<Rightarrow> x)"
| "index0 (JStr s) = (case s of [] \<Rightarrow> JUndefined | c # rest \<Rightarrow> JStr [c])"
| "index0 (JObj kvs) = jget (JObj kvs) ''0''"
| "index0 v = JUndefined"

text \<open>
  The body of \<^verbatim>\<open>for await (const chunk of result)\<close>. Reading \<^verbatim>\<open>chunk.type\<close> of a nullish
  chunk and \<^verbatim>\<open>message.content\<close> of a nullish message throw a TypeError.
\<close>

definition on_sdk_chunk :: "runtime \<Rightarrow> jsval \<Rightarrow> jsval \<Rightarrow> emission \<Rightarrow> emission outcome" where
  "on_sdk_chunk rt sid chunk st =
     (if nullish chunk then Threw st
      else if jget chunk ''type'' = JStr ''system'' \<and> jget chunk ''subtype'' = JStr ''init'' then
        Normal (emit (JObj [(''type'', JStr ''init''), (''sessionId'', sid),
            (''model'', js_or (jget chunk ''model'') (JStr ''claude-sonnet-4-5-20250929'')),
            (''tools'', js_or (jget chunk ''tools'') (JArr []))]) st)
      else if jget chunk ''type'' = JStr ''assistant'' then
        (let message = jget chunk ''message'' in
         if nullish message then Threw st
         else if truthy (jget message ''content'') \<and> truthy (index0 (jget message ''content''))
                 \<and> jget (index0 (jget message ''content'')) ''type'' = JStr ''text'' then
           (let text = jget (index0 (jget message ''content'')) ''text'';
                st1 = st\<lparr>fullResponse := fullResponse st @ js_to_string rt text\<rparr>
            in Normal (emit (JObj [(''type'', JStr ''text''), (''text'', text),
                 (''fullText'', JStr (fullResponse st1)),
                 (''messageId'', jget message ''id'')]) st1))
         else Normal st)
      else if jget chunk ''type'' = JStr ''result'' then
        Normal (emit (JObj [(''type'', JStr ''result''),
            (''success'', JBool (\<not> truthy (jget chunk ''is_error''))),
            (''duration'', jget chunk ''duration_ms''), (''usage'', jget chunk ''usage''),
            (''cost'', jget chunk ''total_cost_usd'')]) st)
      else if jget chunk ''type'' = JStr ''text'' then
        (let st1 = st\<lparr>fullResponse := fullResponse st @ js_to_string rt (jget chunk ''text'')\<rparr>
         in Normal (emit (JObj [(''type'', JStr ''text''), (''text'', jget chunk ''text''),
              (''fullText'', JStr (fullResponse st1))]) st1))
      else if jget chunk ''type'' = JStr ''tool_use'' then
        Normal (emit (JObj [(''type'', JStr ''tool_use''), (''tool'', jget chunk ''name''),
            (''input'', jget chunk ''input'')]) st)
      else if jget chunk ''type'' = JStr ''tool_result'' then
        Normal (emit (JObj [(''type'', JStr ''tool_result''), (''tool'', jget chunk ''name''),
            (''result'', jget chunk ''result'')]) st)
      else Normal (emit (JObj [(''type'', JStr ''debug''), (''data'', chunk)]) st))"

text \<open>
  A thrown value is a \<open>jsval\<close>: an \<^verbatim>\<open>Error\<close> is an object with a \<^verbatim>\<open>message\<close>, and
  \<^verbatim>\<open>throw null\<close> or a promise rejected without a reason throws a nullish value.
  \<open>type_error te\<close> is the TypeError the engine throws from the handlers' own code, with
  the engine's text \<open>te\<close>.
\<close>

definition type_error :: "string \<Rightarrow> jsval" where
  "type_error te = JObj [(''message'', JStr te)]"

text \<open>
  The \<^verbatim>\<open>try\<close> block from the first statement after the headers to the end of the loop:
  \<^verbatim>\<open>message.substring(0, 50)\<close> throws unless the message is a string; then the chunks
  the backend's iterator yields are handled in turn, and \<open>failure\<close> is the value the
  iterator throws after them, if it does. The result is the emission so far and the value
  thrown, if any.
\<close>

definition stream_turn ::
  "runtime \<Rightarrow> string \<Rightarrow> jsval \<Rightarrow> jsval \<Rightarrow> jsval list \<Rightarrow> jsval option
     \<Rightarrow> emission \<times> jsval option" where
  "stream_turn rt te sid message chunks failure =
     (let st0 = \<lparr>fullResponse = [], written = []\<rparr> in
      case as_string message of
        Some m \<Rightarrow>
          (case forEach (on_sdk_chunk rt sid) chunks st0 of
             Threw st \<Rightarrow> (st, Some (type_error te))
           | Normal st \<Rightarrow> (st, failure))
      | None \<Rightarrow> (st0, Some (type_error te)))"

text \<open>
  The \<^verbatim>\<open>catch\<close> of the handler, after the frames \<open>ws\<close>: it writes
  \<^verbatim>\<open>{type: 'error', error: error.message}\<close>, the sentinel, and ends the response. Reading
  \<^verbatim>\<open>error.message\<close> of a nullish \<open>error\<close> throws inside the \<^verbatim>\<open>catch\<close>.
\<close>

definition handler_catch :: "wire list \<Rightarrow> jsval \<Rightarrow> response" where
  "handler_catch ws err =
     (if nullish err then Rejected ws
      else EventStream (ws @
             [Data (JObj [(''type'', JStr ''error''), (''error'', jget err ''message'')]),
              DoneMark]))"

text \<open>
  The handler, for a request body with the fields \<open>projectPath\<close> and \<open>message\<close>: the check
  of the message; \<^verbatim>\<open>path.basename(projectPath)\<close>, called before the \<^verbatim>\<open>try\<close> when
  \<open>projectPath\<close> is truthy, which throws unless it is a string; the session bookkeeping,
  which only yields the session id \<open>sid\<close>; then the \<^verbatim>\<open>try\<close> with its \<^verbatim>\<open>catch\<close>.
\<close>

definition chat_handler ::
  "runtime \<Rightarrow> string \<Rightarrow> jsval \<Rightarrow> jsval \<Rightarrow> jsval \<Rightarrow> jsval list \<Rightarrow> jsval option
     \<Rightarrow> response" where
  "chat_handler rt te projectPath sid message chunks failure =
     (if \<not> truthy message then Json 400 (JObj [(''error'', JStr ''Missing message'')])
      else if truthy projectPath \<and> as_string projectPath = None then Rejected []
      else
        (case stream_turn rt te sid message chunks failure of
           (st, None) \<Rightarrow> EventStream (written st @ [DoneMark])
         | (st, Some err) \<Rightarrow> handler_catch (written st) err))"

section \<open>\<^verbatim>\<open>server/routes/chat.ts\<close>: the handler of \<^verbatim>\<open>POST /chat\<close>\<close>

text \<open>
  \<^verbatim>\<open>streamChatResponse\<close> (the second module in \<^verbatim>\<open>server/services/projectService.ts\<close>, which
  the route imports as \<^verbatim>\<open>agentService\<close>): the generator yields what the backend's iterator
  yields; its \<^verbatim>\<open>catch\<close> yields one chunk
  \<^verbatim>\<open>{type: 'error', error: error.message || 'Unknown error occurred'}\<close> and the generator
  finishes. Reading \<^verbatim>\<open>error.message\<close> of a nullish \<open>error\<close> throws out of the generator. The
  result is what the generator yields and the value it throws, if any.
\<close>

definition streamChatResponse ::
  "string \<Rightarrow> jsval list \<Rightarrow> jsval option \<Rightarrow> jsval list \<times> jsval option" where
  "streamChatResponse te chunks failure =
     (case failure of
        None \<Rightarrow> (chunks, None)
      | Some err \<Rightarrow>
          if nullish err then (chunks, Some (type_error te))
          else (chunks @
                  [JObj [(''type'', JStr ''error''),
                         (''error'', js_or (jget err ''message'') (JStr ''Unknown error occurred''))]],
                None))"

text \<open>
  The \<^verbatim>\<open>catch\<close> of the route, after the frames \<open>ws\<close>: it reports
  \<^verbatim>\<open>error.message || 'Unknown error occurred'\<close>, writes the sentinel and ends the response.
\<close>

definition route_catch :: "wire list \<Rightarrow> jsval \<Rightarrow> response" where
  "route_catch ws err =
     (if nullish err then Rejected ws
      else EventStream (ws @
             [Data (JObj [(''type'', JStr ''error''),
                          (''error'', js_or (jget err ''message'') (JStr ''Unknown error occurred''))]),
              DoneMark]))"

text \<open>
  The route: the check of the body; inside the \<^verbatim>\<open>try\<close>, \<^verbatim>\<open>identifyTask\<close> calls
  \<^verbatim>\<open>message.toLowerCase()\<close>, which throws unless the message is a string; then every chunk
  the generator yields is written as it is, followed by the sentinel.
\<close>

definition chat_route ::
  "string \<Rightarrow> jsval \<Rightarrow> jsval \<Rightarrow> jsval list \<Rightarrow> jsval option \<Rightarrow> response" where
  "chat_route te projectPath message chunks failure =
     (if \<not> truthy projectPath \<or> \<not> truthy message then
        Json 400 (JObj [(''error'', JStr ''Missing required fields: projectPath and message'')])
      else
        (case as_string message of
           None \<Rightarrow> route_catch [] (type_error te)
         | Some m \<Rightarrow>
             (case streamChatResponse te chunks failure of
                (ys, None) \<Rightarrow> EventStream (map Data ys @ [DoneMark])
              | (ys, Some err) \<Rightarrow> route_catch (map Data ys) err)))"

section \<open>A runtime for concrete runs\<close>

text \<open>
  The runs below need the built-ins at a few inputs: the frames they feed with the values
  \<^verbatim>\<open>JSON.parse\<close> gives for them, decimal digits for \<^verbatim>\<open>Date.now()\<close>, ASCII lower case
  and the trimming of spaces.
\<close>

definition frames :: "(string \<times> jsval) list" where
  \<open>frames =
    [(''{"type":"init","sessionId":"s1","model":"m","tools":["Read"]}'',
      JObj [(''type'', JStr ''init''), (''sessionId'', JStr ''s1''), (''model'', JStr ''m''),
            (''tools'', JArr [JStr ''Read''])]),
     (''{"type":"text","text":"Hi","fullText":"Hi"}'',
      JObj [(''type'', JStr ''text''), (''text'', JStr ''Hi''), (''fullText'', JStr ''Hi'')]),
     (''{"type":"text","text":"x","fullText":""}'',
      JObj [(''type'', JStr ''text''), (''text'', JStr ''x''), (''fullText'', JStr [])]),
     (''{"type":"result","success":true,"duration":120}'',
      JObj [(''type'', JStr ''result''), (''success'', JBool True), (''duration'', JNum 120)]),
     (''{"type":"status","note":"x"}'',
      JObj [(''type'', JStr ''status''), (''note'', JStr ''x'')]),
     (''{"type":"debug","data":{"type":"system","subtype":"status"}}'',
      JObj [(''type'', JStr ''debug''),
            (''data'', JObj [(''type'', JStr ''system''), (''subtype'', JStr ''status'')])]),
     (''{"type":"debug","data":{"type":"assistant","message":{"content":[{"type":"tool_use","id":"t1","name":"Bash","input":{"command":"ls"}}]}}}'',
      JObj [(''type'', JStr ''debug''), (''data'', JObj [(''type'', JStr ''assistant''),
        (''message'', JObj [(''content'', JArr [JObj [(''type'', JStr ''tool_use''),
           (''id'', JStr ''t1''), (''name'', JStr ''Bash''),
           (''input'', JObj [(''command'', JStr ''ls'')])]])])])]),
     (''{"type":"debug","data":{"type":"user","message":{"content":[{"type":"tool_result","tool_use_id":"t1","content":"a.txt","is_error":false}]}}}'',
      JObj [(''type'', JStr ''debug''), (''data'', JObj [(''type'', JStr ''user''),
        (''message'', JObj [(''content'', JArr [JObj [(''type'', JStr ''tool_result''),
           (''tool_use_id'', JStr ''t1''), (''content'', JStr ''a.txt''),
           (''is_error'', JBool False)]])])])]),
     (''{"type":"debug","data":{"type":"user","message":{"content":[{"type":"tool_result","tool_use_id":"t9","content":"late","is_error":false}]}}}'',
      JObj [(''type'', JStr ''debug''), (''data'', JObj [(''type'', JStr ''user''),
        (''message'', JObj [(''content'', JArr [JObj [(''type'', JStr ''tool_result''),
           (''tool_use_id'', JStr ''t9''), (''content'', JStr ''late''),
           (''is_error'', JBool False)]])])])])]\<close>

fun decimal :: "nat \<Rightarrow> string" where
  "decimal n =
     (if n < 10 then [''0123456789'' ! n] else decimal (n div 10) @ [''0123456789'' ! (n mod 10)])"

definition lower :: "char \<Rightarrow> char" where
  "lower c =
     (case map_of (zip ''ABCDEFGHIJKLMNOPQRSTUVWXYZ'' ''abcdefghijklmnopqrstuvwxyz'') c of
        Some d \<Rightarrow> d | None \<Rightarrow> c)"

definition strip :: "string \<Rightarrow> string" where
  "strip s = rev (dropWhile (\<lambda>c. c = CHR '' '') (rev (dropWhile (\<lambda>c. c = CHR '' '') s)))"

definition node :: runtime where
  "node = \<lparr>json_parse = map_of frames,
           to_string = (\<lambda>v. case v of JNum n \<Rightarrow> decimal (nat n) | other \<Rightarrow> ''undefined''),
           toLowerCase = map lower, trim = strip\<rparr>"

section \<open>Predicates on logs and tables\<close>

text \<open>
  The current assistant message of a call, once created, is in the log (under its id).
\<close>

definition assistant_shown :: "locals \<times> session \<Rightarrow> bool" where
  "assistant_shown ls =
     (case currentAssistantMessage (fst ls) of
        None \<Rightarrow> True
      | Some m \<Rightarrow> mid m \<in> mid ` set (messages (snd ls)))"

text \<open>The same state with the flag \<open>isGenerating\<close> set to \<open>g\<close>.\<close>

definition with_flag :: "bool \<Rightarrow> locals \<times> session \<Rightarrow> locals \<times> session" where
  "with_flag g ls = (fst ls, (snd ls)\<lparr>isGenerating := g\<rparr>)"

text \<open>
  \<open>results_follow_uses S ms\<close>: every \<^verbatim>\<open>tool_result\<close> message of \<open>ms\<close> that carries an
  invocation id has that id in \<open>S\<close> or on a \<^verbatim>\<open>tool_use\<close> message before it. \<open>used ms\<close>
  are the ids on the \<^verbatim>\<open>tool_use\<close> messages of \<open>ms\<close>.
\<close>

fun results_follow_uses :: "jsval set \<Rightarrow> msg list \<Rightarrow> bool" where
  "results_follow_uses S [] = True"
| "results_follow_uses S (m # ms) =
     ((mtype m = ToolResult \<and> toolId m \<noteq> JUndefined \<longrightarrow> toolId m \<in> S) \<and>
      results_follow_uses (if mtype m = ToolUse then insert (toolId m) S else S) ms)"

definition used :: "msg list \<Rightarrow> jsval set" where
  "used ms = set (map toolId (filter (\<lambda>m. mtype m = ToolUse) ms))"

text \<open>
  Every invocation a call's table can find has its \<^verbatim>\<open>tool_use\<close> message in the log.
\<close>

definition covered :: "locals \<Rightarrow> session \<Rightarrow> bool" where
  "covered l s =
     (\<forall>k e. map_get (currentToolExecutions l) k = Some e \<longrightarrow> k \<in> used (messages s))"

definition tool_inv :: "jsval set \<Rightarrow> locals \<times> session \<Rightarrow> bool" where
  "tool_inv U ls =
     (U \<subseteq> used (messages (snd ls)) \<and> results_follow_uses {} (messages (snd ls))
      \<and> covered (fst ls) (snd ls))"

definition log_inv :: "session \<times> call list \<Rightarrow> bool" where
  "log_inv st =
     (results_follow_uses {} (messages (fst st))
      \<and> (\<forall>l. Reading l \<in> set (snd st) \<longrightarrow> covered l (fst st)))"

text \<open>
  The \<^verbatim>\<open>text\<close> events among what the server wrote, in the order written, and the string
  the server appended to \<^verbatim>\<open>fullResponse\<close> for one of them.
\<close>

fun payloads :: "wire list \<Rightarrow> jsval list" where
  "payloads [] = []"
| "payloads (Data v # ws) = v # payloads ws"
| "payloads (DoneMark # ws) = payloads ws"

definition text_events :: "wire list \<Rightarrow> jsval list" where
  "text_events ws = filter (\<lambda>v. jget v ''type'' = JStr ''text'') (payloads ws)"

definition text_of :: "runtime \<Rightarrow> jsval \<Rightarrow> string" where
  "text_of rt v = js_to_string rt (jget v ''text'')"

text \<open>
  Each \<^verbatim>\<open>fullText\<close> is the concatenation of the texts up to and including its own event;
  with it, \<^verbatim>\<open>fullResponse\<close> is the concatenation of all of them.
\<close>

definition accumulated :: "runtime \<Rightarrow> jsval list \<Rightarrow> bool" where
  "accumulated rt tes =
     (\<forall>n<length tes. jget (tes ! n) ''fullText'' = JStr (concat (map (text_of rt) (take (Suc n) tes))))"

definition emission_ok :: "runtime \<Rightarrow> emission \<Rightarrow> bool" where
  "emission_ok rt st =
     (fullResponse st = concat (map (text_of rt) (text_events (written st)))
      \<and> accumulated rt (text_events (written st)))"

text \<open>
  A run of tool frames: \<open>Use k name inp\<close> is the envelope of a \<^verbatim>\<open>tool_use\<close> item,
  \<open>Res k result is_error\<close> that of a \<^verbatim>\<open>tool_result\<close> item. \<open>paired pending finished es\<close>
  holds when \<open>es\<close> consists of matched pairs with pairwise distinct ids: a use has an id
  not seen before, a result the id of a use that is still pending, and nothing is
  pending at the end.
\<close>

datatype tool_event = Use jsval jsval jsval | Res jsval jsval jsval

fun encode :: "tool_event \<Rightarrow> jsval" where
  "encode (Use k name inp) = tool_use_event k name inp"
| "encode (Res k result is_error) = tool_result_event k result is_error"

fun event_id :: "tool_event \<Rightarrow> jsval" where
  "event_id (Use k name inp) = k"
| "event_id (Res k result is_error) = k"

fun paired :: "jsval list \<Rightarrow> jsval list \<Rightarrow> tool_event list \<Rightarrow> bool" where
  "paired pending finished [] = (pending = [])"
| "paired pending finished (Use k name inp # es) =
     (k \<notin> set pending \<and> k \<notin> set finished \<and> paired (k # pending) finished es)"
| "paired pending finished (Res k result is_error # es) =
     (k \<in> set pending \<and> paired (removeAll k pending) (k # finished) es)"

text \<open>
  An invocation id the table can find again and \<^verbatim>\<open>item.tool_use_id\<close> lets through: a
  truthy primitive, such as a string that is not empty.
\<close>

definition usable :: "jsval \<Rightarrow> bool" where
  "usable k = (truthy k \<and> \<not> is_ref k)"

text \<open>
  The \<^verbatim>\<open>tool_use\<close> and the \<^verbatim>\<open>tool_result\<close> messages of a log for one id, and a
  \<^verbatim>\<open>tool_use\<close> message of the id standing before a \<^verbatim>\<open>tool_result\<close> message of it.
\<close>

definition uses_of :: "jsval \<Rightarrow> msg list \<Rightarrow> msg list" where
  "uses_of k ms = filter (\<lambda>m. mtype m = ToolUse \<and> toolId m = k) ms"

definition results_of :: "jsval \<Rightarrow> msg list \<Rightarrow> msg list" where
  "results_of k ms = filter (\<lambda>m. mtype m = ToolResult \<and> toolId m = k) ms"

definition use_before_result :: "jsval \<Rightarrow> msg list \<Rightarrow> bool" where
  "use_before_result k ms =
     (\<exists>i j. i < j \<and> j < length ms \<and> mtype (ms ! i) = ToolUse \<and> toolId (ms ! i) = k
            \<and> mtype (ms ! j) = ToolResult \<and> toolId (ms ! j) = k)"

text \<open>
  The state of the correlation while a run is handled: \<open>P\<close> are the ids in use, \<open>D\<close>
  the ids done, \<open>t\<close> the table and \<open>new\<close> the messages the run has appended.
\<close>

definition pairing :: "jsval set \<Rightarrow> jsval set \<Rightarrow> table \<Rightarrow> msg list \<Rightarrow> bool" where
  "pairing P D t new =
     ((\<forall>k te. map_get t k = Some te \<longrightarrow> k \<in> P \<union> D)
      \<and> (\<forall>k\<in>P. (\<exists>te. map_get t k = Some te) \<and> length (uses_of k new) = 1
              \<and> results_of k new = [])
      \<and> (\<forall>k\<in>D. (\<exists>te. map_get t k = Some te \<and> te_isComplete te) \<and> length (uses_of k new) = 1
              \<and> length (results_of k new) = 1 \<and> use_before_result k new)
      \<and> (\<forall>k. usable k \<and> k \<notin> P \<and> k \<notin> D \<longrightarrow> uses_of k new = [] \<and> results_of k new = [])
      \<and> (\<forall>k\<in>P \<union> D. usable k))"

section \<open>Properties of the client's frame handling\<close>

lemma on_lines_append:
  "on_lines rt now (xs @ ys) ls = on_lines rt now ys (on_lines rt now xs ls)"
  by (induction xs arbitrary: ls) simp_all

lemma messages_addMessage [simp]:
  "messages (addMessage rt now m s) = messages s @
     [m\<lparr>mid := (if mid m = [] then js_to_string rt (JNum (int now)) else mid m),
        timestamp := (if timestamp m = 0 then now else timestamp m)\<rparr>]"
  by (simp add: addMessage_def)

lemma blank_sel [simp]:
  "mtype (blank i t ts) = t" "toolId (blank i t ts) = JUndefined" "mid (blank i t ts) = i"
  "content (blank i t ts) = JUndefined"
  by (simp_all add: blank_def)

lemma set_content_sel [simp]:
  "mid (set_content i c m) = mid m" "mtype (set_content i c m) = mtype m"
  "toolId (set_content i c m) = toolId m"
  "content (set_content i c m) = (if mid m = i then c else content m)"
  by (simp_all add: set_content_def)

lemma map_get_map_set:
  "map_get (map_set k v t) k' = (if k' = k \<and> \<not> is_ref k then Some v else map_get t k')"
  by (cases "k' = k")
     (auto simp: map_get_def map_set_def update_conv map_add_def split: option.splits)

lemma on_events_append:
  "on_events rt (xs @ ys) ls = on_events rt ys (on_events rt xs ls)"
proof (induction xs arbitrary: ls)
  case Nil
  show ?case by simp
next
  case (Cons e xs)
  then show ?case by (cases e) simp
qed

text \<open>
  Lines that carry decodable frames are handled as the events they decode to.
\<close>

lemma on_lines_decoded:
  assumes "\<forall>dp\<in>set dps. fst dp \<noteq> ''[DONE]'' \<and> json_parse rt (fst dp) = Some (snd dp)"
  shows "on_lines rt now (map (\<lambda>dp. ''data: '' @ fst dp) dps) ls
           = on_events rt (map (\<lambda>dp. (now, snd dp)) dps) ls"
  using assms by (induction dps arbitrary: ls) (simp_all add: on_line_def)

text \<open>
  Claim C5. The terminal sentinel is idempotent: whatever the state, a chunk holding the
  record \<^verbatim>\<open>data: [DONE]\<close> leaves the flag \<open>isGenerating\<close> off (the state is idle) and
  the log as it was, and handling the same record a second time changes nothing more.
  The handler is a total function: nothing is raised.
\<close>

theorem done_is_idempotent:
  "on_chunk rt t2 (''data: [DONE]'' @ [CHR 0x0A, CHR 0x0A])
       (on_chunk rt t1 (''data: [DONE]'' @ [CHR 0x0A, CHR 0x0A]) ls)
     = on_chunk rt t1 (''data: [DONE]'' @ [CHR 0x0A, CHR 0x0A]) ls
   \<and> \<not> isGenerating (snd (on_chunk rt t1 (''data: [DONE]'' @ [CHR 0x0A, CHR 0x0A]) ls))
   \<and> messages (snd (on_chunk rt t1 (''data: [DONE]'' @ [CHR 0x0A, CHR 0x0A]) ls))
       = messages (snd ls)"
  by (simp add: on_chunk_def on_line_def)

text \<open>
  Claim C6. A frame that \<^verbatim>\<open>JSON.parse\<close> rejects is skipped: the \<^verbatim>\<open>catch\<close> leaves the
  whole state, and so the log, as it was, and the frames before and after it are handled
  as if it had not been there.
\<close>

theorem malformed_frame_is_skipped:
  assumes "json_parse rt (drop 6 bad) = None" and "drop 6 bad \<noteq> ''[DONE]''"
  shows "on_line rt now bad ls = ls
     \<and> on_lines rt now (before @ bad # after) ls = on_lines rt now (before @ after) ls"
  using assms by (simp add: on_lines_append on_line_def)

text \<open>
  Claim C6 at a truncated text frame between an \<^verbatim>\<open>init\<close> and a \<^verbatim>\<open>result\<close> frame: the log
  holds the two messages of the valid frames.
\<close>

theorem malformed_frame_is_skipped_witness:
  \<open>json_parse node (drop 6 ''data: {"type":"text","te'') = None
   \<and> drop 6 ''data: {"type":"text","te'' \<noteq> ''[DONE]''
   \<and> on_lines node 7
        ([''data: {"type":"init","sessionId":"s1","model":"m","tools":["Read"]}''] @
          ''data: {"type":"text","te'' #
          [''data: {"type":"result","success":true,"duration":120}''])
        (initial_locals, fst initial)
      = on_lines node 7
        ([''data: {"type":"init","sessionId":"s1","model":"m","tools":["Read"]}''] @
          [''data: {"type":"result","success":true,"duration":120}''])
        (initial_locals, fst initial)
   \<and> map mtype (messages (snd (on_lines node 7
        ([''data: {"type":"init","sessionId":"s1","model":"m","tools":["Read"]}''] @
          [''data: {"type":"result","success":true,"duration":120}''])
        (initial_locals, fst initial)))) = [Init, Result]\<close>
proof -
  have p: \<open>json_parse node (drop 6 ''data: {"type":"text","te'') = None\<close>
    by (simp add: node_def frames_def)
  have d: \<open>drop 6 ''data: {"type":"text","te'' \<noteq> ''[DONE]''\<close>
    by simp
  have r: \<open>map mtype (messages (snd (on_lines node 7
        ([''data: {"type":"init","sessionId":"s1","model":"m","tools":["Read"]}''] @
          [''data: {"type":"result","success":true,"duration":120}''])
        (initial_locals, fst initial)))) = [Init, Result]\<close>
    by code_simp
  from malformed_frame_is_skipped[OF p d] p d r show ?thesis
    by blast
qed

text \<open>
  Claim C2, as the code has it. A \<^verbatim>\<open>tool_result\<close> frame whose invocation id has no record
  at all in the table, neither pending nor completed, raises nothing, and appends nothing
  either: \<^verbatim>\<open>if (toolExecution)\<close> guards the whole completion, so the state is left as it
  was.
\<close>

theorem unmatched_tool_result_is_dropped:
  assumes "map_get (currentToolExecutions (fst ls)) k = None"
  shows "on_parsed rt now (tool_result_event k result is_error) ls = Normal ls"
  using assms
  by (simp add: on_parsed_def tool_result_event_def on_debug_def on_tool_result_item_def)

text \<open>Claim C2 as amended, at the id \<^verbatim>\<open>t9\<close> on a fresh turn.\<close>

theorem unmatched_tool_result_is_dropped_witness:
  "map_get (currentToolExecutions (fst (initial_locals, fst initial))) (JStr ''t9'') = None
   \<and> on_parsed node 5 (tool_result_event (JStr ''t9'') (JStr ''late'') (JBool False))
        (initial_locals, fst initial)
      = Normal (initial_locals, fst initial)"
  using unmatched_tool_result_is_dropped
          [of "(initial_locals, fst initial)" "JStr ''t9''" node 5 "JStr ''late''" "JBool False"]
  by (simp add: initial_locals_def map_get_def)

text \<open>
  Claim C2 as stated fails: with no \<^verbatim>\<open>tool_use\<close> seen, the frame of Scenario C leaves the
  log empty, where the claim has a \<^verbatim>\<open>tool_result\<close> message with an unknown tool name.
\<close>

theorem unmatched_tool_result_counterexample:
  \<open>messages (snd (on_chunk node 5
      ''data: {"type":"debug","data":{"type":"user","message":{"content":[{"type":"tool_result","tool_use_id":"t9","content":"late","is_error":false}]}}}''
      (initial_locals, fst initial))) = []\<close>
  by code_simp

text \<open>
  Claim C8, as the code has it. The \<^verbatim>\<open>switch\<close> has no \<^verbatim>\<open>default\<close>, and its \<^verbatim>\<open>debug\<close> case
  only looks for tool items in an assistant or a user message. A decoded frame whose
  type is none of \<^verbatim>\<open>init\<close>, \<^verbatim>\<open>text\<close>, \<^verbatim>\<open>result\<close>, \<^verbatim>\<open>error\<close>, and which is not a
  \<^verbatim>\<open>debug\<close> envelope around such a message, is dropped: the state and the log stay as
  they were, and no \<^verbatim>\<open>debug\<close> message is appended.
\<close>

theorem unrecognised_event_is_dropped:
  assumes "\<not> nullish parsed"
    and "jget parsed ''type'' \<notin> {JStr ''init'', JStr ''text'', JStr ''result'', JStr ''error''}"
    and "jget parsed ''type'' = JStr ''debug'' \<longrightarrow>
           jget (jget parsed ''data'') ''type'' \<notin> {JStr ''assistant'', JStr ''user''}"
  shows "on_parsed rt now parsed ls = Normal ls"
  using assms by (simp add: on_parsed_def on_debug_def)

text \<open>
  Claim C8 as amended, at a frame of type \<^verbatim>\<open>status\<close> and at the \<^verbatim>\<open>debug\<close> envelope of a
  system chunk.
\<close>

theorem unrecognised_event_is_dropped_witness:
  "\<not> nullish (JObj [(''type'', JStr ''status''), (''note'', JStr ''x'')])
   \<and> on_parsed node 5 (JObj [(''type'', JStr ''status''), (''note'', JStr ''x'')])
        (initial_locals, fst initial) = Normal (initial_locals, fst initial)
   \<and> on_parsed node 5
        (JObj [(''type'', JStr ''debug''),
               (''data'', JObj [(''type'', JStr ''system''), (''subtype'', JStr ''status'')])])
        (initial_locals, fst initial) = Normal (initial_locals, fst initial)"
  using unrecognised_event_is_dropped
          [of "JObj [(''type'', JStr ''status''), (''note'', JStr ''x'')]" node 5
              "(initial_locals, fst initial)"]
        unrecognised_event_is_dropped
          [of "JObj [(''type'', JStr ''debug''),
                 (''data'', JObj [(''type'', JStr ''system''), (''subtype'', JStr ''status'')])]"
              node 5 "(initial_locals, fst initial)"]
  by simp

text \<open>
  Claim C8 as stated fails: after a frame of the unrecognised type \<^verbatim>\<open>status\<close>, and after
  the \<^verbatim>\<open>debug\<close> envelope in which the server forwards a system chunk it does not
  recognise, the log is still empty; no \<^verbatim>\<open>debug\<close> message was appended.
\<close>

theorem unrecognised_event_counterexample:
  \<open>messages (snd (on_chunk node 5 ''data: {"type":"status","note":"x"}''
      (initial_locals, fst initial))) = []
   \<and> on_sdk_chunk node (JStr ''s1'')
        (JObj [(''type'', JStr ''system''), (''subtype'', JStr ''status'')])
        \<lparr>fullResponse = [], written = []\<rparr>
      = Normal \<lparr>fullResponse = [], written =
          [Data (JObj [(''type'', JStr ''debug''),
             (''data'', JObj [(''type'', JStr ''system''), (''subtype'', JStr ''status'')])])]\<rparr>
   \<and> messages (snd (on_chunk node 5
        ''data: {"type":"debug","data":{"type":"system","subtype":"status"}}''
        (initial_locals, fst initial))) = []\<close>
  by code_simp

section \<open>Text frames\<close>

lemma open_assistant_shown:
  "assistant_shown ls \<Longrightarrow>
     \<exists>m. currentAssistantMessage (fst (open_assistant rt now p ls)) = Some m
        \<and> mid m \<in> mid ` set (messages (snd (open_assistant rt now p ls)))"
  by (cases "currentAssistantMessage (fst ls)")
     (auto simp: assistant_shown_def open_assistant_def Let_def)

lemma on_text_content:
  assumes "assistant_shown ls"
  shows "\<exists>m. currentAssistantMessage (fst (on_text rt now p ls)) = Some m
      \<and> mid m \<in> mid ` set (messages (snd (on_text rt now p ls)))
      \<and> (\<forall>x \<in> set (messages (snd (on_text rt now p ls))).
            mid x = mid m \<longrightarrow> content x = js_or (jget p ''fullText'') (jget p ''text''))"
proof -
  from open_assistant_shown[OF assms, of rt now p] obtain m where
    m: "currentAssistantMessage (fst (open_assistant rt now p ls)) = Some m"
       "mid m \<in> mid ` set (messages (snd (open_assistant rt now p ls)))"
    by blast
  then show ?thesis
    by (auto simp: on_text_def Let_def image_iff)
qed

lemma on_text_shown: "assistant_shown ls \<Longrightarrow> assistant_shown (on_text rt now p ls)"
  using on_text_content[of ls rt now p] by (auto simp: assistant_shown_def)

lemma text_event_step:
  "jget p ''type'' = JStr ''text'' \<Longrightarrow> settle (on_parsed rt now p ls) = on_text rt now p ls"
  by (cases p) (simp_all add: on_parsed_def)

lemma text_events_shown:
  "\<forall>e \<in> set evs. jget (snd e) ''type'' = JStr ''text'' \<Longrightarrow> assistant_shown ls \<Longrightarrow>
     assistant_shown (on_events rt evs ls)"
proof (induction evs arbitrary: ls)
  case Nil
  then show ?case by simp
next
  case (Cons e evs)
  obtain now p where e: "e = (now, p)" by (cases e)
  with Cons.prems have "settle (on_parsed rt now p ls) = on_text rt now p ls"
    by (simp add: text_event_step)
  with Cons e show ?case by (simp add: on_text_shown)
qed

text \<open>
  Where the last frame of a sequence of \<^verbatim>\<open>text\<close> frames on a fresh turn carries a truthy
  \<^verbatim>\<open>fullText\<close> (for a string: a non-empty one), the assistant message of the turn is in
  the log and the content of every message under its id is that \<^verbatim>\<open>fullText\<close>, whatever
  the earlier frames carried.
\<close>

theorem truthy_full_text_replaces_content:
  assumes "evs \<noteq> []"
    and "\<forall>e \<in> set evs. jget (snd e) ''type'' = JStr ''text''"
    and "truthy (jget (snd (last evs)) ''fullText'')"
  shows "\<exists>m. currentAssistantMessage (fst (on_events rt evs (initial_locals, s))) = Some m
      \<and> (\<exists>x \<in> set (messages (snd (on_events rt evs (initial_locals, s)))). mid x = mid m)
      \<and> (\<forall>x \<in> set (messages (snd (on_events rt evs (initial_locals, s)))).
            mid x = mid m \<longrightarrow> content x = jget (snd (last evs)) ''fullText'')"
proof -
  from assms(1) obtain xs now p where evs: "evs = xs @ [(now, p)]"
    by (metis rev_exhaust surj_pair)
  let ?ls = "on_events rt xs (initial_locals, s)"
  have "assistant_shown (initial_locals, s)"
    by (simp add: assistant_shown_def initial_locals_def)
  with assms(2) evs have shown: "assistant_shown ?ls"
    by (simp add: text_events_shown)
  from assms(2) evs have "settle (on_parsed rt now p ?ls) = on_text rt now p ?ls"
    by (simp add: text_event_step)
  then have run: "on_events rt evs (initial_locals, s) = on_text rt now p ?ls"
    by (simp add: evs on_events_append)
  from assms(3) evs have "js_or (jget p ''fullText'') (jget p ''text'') = jget p ''fullText''"
    by (simp add: js_or_def)
  with on_text_content[OF shown, of rt now p] run evs show ?thesis
    by auto
qed

text \<open>The same at two frames with the full texts \<^verbatim>\<open>Hel\<close> and \<^verbatim>\<open>Hello\<close>.\<close>

theorem truthy_full_text_replaces_content_witness:
  "[(5::nat, JObj [(''type'', JStr ''text''), (''text'', JStr ''Hel''), (''fullText'', JStr ''Hel'')]),
    (6, JObj [(''type'', JStr ''text''), (''text'', JStr ''lo''), (''fullText'', JStr ''Hello'')])]
     \<noteq> []
   \<and> truthy (jget (snd (last
        [(5::nat, JObj [(''type'', JStr ''text''), (''text'', JStr ''Hel''), (''fullText'', JStr ''Hel'')]),
         (6, JObj [(''type'', JStr ''text''), (''text'', JStr ''lo''), (''fullText'', JStr ''Hello'')])]))
        ''fullText'')
   \<and> (\<exists>x. x \<in> set (messages (snd (on_events node
        [(5, JObj [(''type'', JStr ''text''), (''text'', JStr ''Hel''), (''fullText'', JStr ''Hel'')]),
         (6, JObj [(''type'', JStr ''text''), (''text'', JStr ''lo''), (''fullText'', JStr ''Hello'')])]
        (initial_locals, fst initial)))) \<and> content x = JStr ''Hello'')
   \<and> map content (messages (snd (on_events node
        [(5, JObj [(''type'', JStr ''text''), (''text'', JStr ''Hel''), (''fullText'', JStr ''Hel'')]),
         (6, JObj [(''type'', JStr ''text''), (''text'', JStr ''lo''), (''fullText'', JStr ''Hello'')])]
        (initial_locals, fst initial)))) = [JStr ''Hello'']"
proof -
  let ?evs = "[(5::nat, JObj [(''type'', JStr ''text''), (''text'', JStr ''Hel''), (''fullText'', JStr ''Hel'')]),
    (6, JObj [(''type'', JStr ''text''), (''text'', JStr ''lo''), (''fullText'', JStr ''Hello'')])]"
  have h1: "?evs \<noteq> []" by simp
  have h2: "\<forall>e \<in> set ?evs. jget (snd e) ''type'' = JStr ''text''" by simp
  have h3: "truthy (jget (snd (last ?evs)) ''fullText'')" by simp
  have l: "jget (snd (last ?evs)) ''fullText'' = JStr ''Hello''" by simp
  have r: "map content (messages (snd (on_events node ?evs (initial_locals, fst initial))))
             = [JStr ''Hello'']"
    by code_simp
  from truthy_full_text_replaces_content[OF h1 h2 h3, of node "fst initial"]
  have "\<exists>x. x \<in> set (messages (snd (on_events node ?evs (initial_locals, fst initial))))
          \<and> content x = JStr ''Hello''"
    unfolding l by blast
  with h1 h3 r show ?thesis by blast
qed


section \<open>The stop button\<close>

lemma with_flag_sel [simp]:
  "fst (with_flag g ls) = fst ls" "messages (snd (with_flag g ls)) = messages (snd ls)"
  "toolExecutions (snd (with_flag g ls)) = toolExecutions (snd ls)"
  by (simp_all add: with_flag_def)

lemma with_flag_twice [simp]: "with_flag g (with_flag h ls) = with_flag g ls"
  by (simp add: with_flag_def)

lemma addMessage_flag:
  "addMessage rt now m (s\<lparr>isGenerating := g\<rparr>) = (addMessage rt now m s)\<lparr>isGenerating := g\<rparr>"
  by (simp add: addMessage_def)

lemma begin_tool_flag:
  "begin_tool rt now item (with_flag g ls) = with_flag g (begin_tool rt now item ls)"
  by (simp add: begin_tool_def with_flag_def Let_def addMessage_def)

lemma complete_tool_flag:
  "complete_tool rt now item te (with_flag g ls) = with_flag g (complete_tool rt now item te ls)"
  by (simp add: complete_tool_def with_flag_def Let_def addMessage_def)

lemma on_tool_use_item_flag:
  "on_tool_use_item rt now item (with_flag g ls)
     = map_outcome (with_flag g) (on_tool_use_item rt now item ls)"
  by (simp add: on_tool_use_item_def begin_tool_flag)

lemma on_tool_result_item_flag:
  "on_tool_result_item rt now item (with_flag g ls)
     = map_outcome (with_flag g) (on_tool_result_item rt now item ls)"
  by (simp add: on_tool_result_item_def complete_tool_flag Let_def split: option.splits)
     (simp add: with_flag_def addMessage_def)

lemma forEach_flag:
  assumes "\<And>x ls. f x (with_flag g ls) = map_outcome (with_flag g) (f x ls)"
  shows "forEach f xs (with_flag g ls) = map_outcome (with_flag g) (forEach f xs ls)"
proof (induction xs arbitrary: ls)
  case Nil
  show ?case by simp
next
  case (Cons x xs)
  show ?case by (cases "f x ls") (simp_all add: assms Cons.IH)
qed

lemma on_debug_flag:
  "on_debug rt now p (with_flag g ls) = map_outcome (with_flag g) (on_debug rt now p ls)"
proof -
  have u: "\<And>xs ls. forEach (on_tool_use_item rt now) xs (with_flag g ls)
      = map_outcome (with_flag g) (forEach (on_tool_use_item rt now) xs ls)"
    by (rule forEach_flag) (rule on_tool_use_item_flag)
  have r: "\<And>xs ls. forEach (on_tool_result_item rt now) xs (with_flag g ls)
      = map_outcome (with_flag g) (forEach (on_tool_result_item rt now) xs ls)"
    by (rule forEach_flag) (rule on_tool_result_item_flag)
  show ?thesis
    by (simp add: on_debug_def Let_def u r split: outcome.splits)
qed

lemma on_text_flag:
  "on_text rt now p (with_flag g ls) = with_flag g (on_text rt now p ls)"
  by (cases "currentAssistantMessage (fst ls)")
     (simp_all add: on_text_def open_assistant_def with_flag_def Let_def addMessage_def)

lemma settle_map_outcome: "settle (map_outcome f r) = f (settle r)"
  by (cases r) simp_all

lemma on_parsed_flag:
  "\<exists>h. settle (on_parsed rt now p (with_flag g ls)) = with_flag h (settle (on_parsed rt now p ls))"
proof -
  have keep: "settle (on_parsed rt now p (with_flag g ls))
                = with_flag g (settle (on_parsed rt now p ls))"
    if "jget p ''type'' \<noteq> JStr ''error''"
    using that
    by (simp add: on_parsed_def on_text_flag on_debug_flag settle_map_outcome)
       (simp add: with_flag_def on_init_def on_result_def addMessage_def)
  have drop: "settle (on_parsed rt now p (with_flag g ls))
                = with_flag False (settle (on_parsed rt now p ls))"
    if "jget p ''type'' = JStr ''error''"
    using that by (cases p) (simp_all add: on_parsed_def with_flag_def on_error_def addMessage_def)
  from keep drop show ?thesis by blast
qed

lemma on_line_flag:
  "\<exists>h. on_line rt now line (with_flag g ls) = with_flag h (on_line rt now line ls)"
proof (cases "take 6 line = ''data: '' \<and> drop 6 line \<noteq> ''[DONE]''")
  case True
  then show ?thesis
    using on_parsed_flag[of rt now _ g ls]
    by (cases "json_parse rt (drop 6 line)") (auto simp: on_line_def)
next
  case False
  then have "on_line rt now line (with_flag g ls)
      = with_flag (if take 6 line = ''data: '' then False else g) (on_line rt now line ls)"
    by (auto simp: on_line_def with_flag_def)
  then show ?thesis by blast
qed

lemma on_lines_flag:
  "\<exists>h. on_lines rt now lines (with_flag g ls) = with_flag h (on_lines rt now lines ls)"
proof (induction lines arbitrary: g ls)
  case Nil
  show ?case by auto
next
  case (Cons line lines)
  from on_line_flag[of rt now line g ls] obtain h where
    "on_line rt now line (with_flag g ls) = with_flag h (on_line rt now line ls)" ..
  with Cons.IH[of h "on_line rt now line ls"] show ?case by simp
qed

lemma on_chunk_flag:
  "\<exists>h. on_chunk rt now chunk (l, s\<lparr>isGenerating := g\<rparr>) = with_flag h (on_chunk rt now chunk (l, s))"
  using on_lines_flag[of rt now "split_lines chunk" g "(l, s)"]
  by (simp add: on_chunk_def with_flag_def)

text \<open>
  Claim C9, as the code has it. \<^verbatim>\<open>stop\<close> turns the flag \<open>isGenerating\<close> off without any
  sentinel and touches nothing else: the log is as it was and every call is still
  reading its stream, so a chunk that arrives after the stop is handled exactly as it
  would have been without it.
\<close>

theorem stop_only_clears_the_flag:
  "\<not> isGenerating (fst (step rt Stop (s, cs)))
   \<and> messages (fst (step rt Stop (s, cs))) = messages s
   \<and> snd (step rt Stop (s, cs)) = cs
   \<and> messages (fst (step rt (Chunk i now chunk) (step rt Stop (s, cs))))
       = messages (fst (step rt (Chunk i now chunk) (s, cs)))
   \<and> snd (step rt (Chunk i now chunk) (step rt Stop (s, cs)))
       = snd (step rt (Chunk i now chunk) (s, cs))"
proof -
  have chunk: "messages (fst (step rt (Chunk i now chunk) (stop s, cs)))
       = messages (fst (step rt (Chunk i now chunk) (s, cs)))
     \<and> snd (step rt (Chunk i now chunk) (stop s, cs))
       = snd (step rt (Chunk i now chunk) (s, cs))"
  proof (cases "i < length cs")
    case False
    then show ?thesis by (simp add: stop_def)
  next
    case True
    show ?thesis
    proof (cases "cs ! i")
      case (Reading l)
      from on_chunk_flag[where rt=rt and now=now and chunk=chunk and l=l and s=s and g=False] obtain h where
        "on_chunk rt now chunk (l, s\<lparr>isGenerating := False\<rparr>)
           = with_flag h (on_chunk rt now chunk (l, s))" ..
      with True Reading show ?thesis
        by (simp add: stop_def split: prod.splits) (metis fst_conv snd_conv with_flag_sel(1,2))
    qed (use True in \<open>simp_all add: stop_def\<close>)
  qed
  then show ?thesis by (simp add: stop_def)
qed

text \<open>
  Claim C9 as stated fails in its first half: after \<^verbatim>\<open>stop\<close> the call is still reading,
  and the \<^verbatim>\<open>init\<close> frame that arrives next is appended to the log.
\<close>

theorem stop_counterexample:
  \<open>snd (run node [SetInput ''hi'', Submit 1 True, FetchOk 0, Stop] initial) = [Reading initial_locals]
   \<and> map mtype (messages (fst (run node [SetInput ''hi'', Submit 1 True, FetchOk 0, Stop] initial))) = [User]
   \<and> map mtype (messages (fst (run node
        [SetInput ''hi'', Submit 1 True, FetchOk 0, Stop,
         Chunk 0 2 ''data: {"type":"init","sessionId":"s1","model":"m","tools":["Read"]}''] initial)))
      = [User, Init]\<close>
  by code_simp

section \<open>Tool results follow tool uses\<close>

lemma used_append [simp]: "used (xs @ ys) = used xs \<union> used ys"
  by (auto simp: used_def)

lemma used_single [simp]: "used [m] = (if mtype m = ToolUse then {toolId m} else {})"
  by (auto simp: used_def)

lemma used_Cons: "used (m # ms) = (if mtype m = ToolUse then insert (toolId m) (used ms) else used ms)"
  by (auto simp: used_def)

lemma used_map_set_content [simp]: "used (map (set_content i c) ms) = used ms"
  by (induction ms) (simp_all add: used_def)

lemma rfu_append:
  "results_follow_uses S (xs @ ys)
     = (results_follow_uses S xs \<and> results_follow_uses (S \<union> used xs) ys)"
proof (induction xs arbitrary: S)
  case Nil
  show ?case by (simp add: used_def)
next
  case (Cons m xs)
  show ?case by (auto simp add: Cons.IH used_Cons)
qed

lemma rfu_map_set_content [simp]:
  "results_follow_uses S (map (set_content i c) ms) = results_follow_uses S ms"
  by (induction ms arbitrary: S) simp_all

lemma rfu_nth:
  "results_follow_uses S ms \<Longrightarrow> j < length ms \<Longrightarrow> mtype (ms ! j) = ToolResult \<Longrightarrow>
   toolId (ms ! j) \<noteq> JUndefined \<Longrightarrow> toolId (ms ! j) \<in> S \<union> used (take j ms)"
proof (induction ms arbitrary: S j)
  case Nil
  then show ?case by simp
next
  case (Cons m ms)
  show ?case
  proof (cases j)
    case 0
    with Cons.prems show ?thesis by simp
  next
    case (Suc n)
    from Cons.prems Suc
    have "toolId (ms ! n) \<in> (if mtype m = ToolUse then insert (toolId m) S else S) \<union> used (take n ms)"
      using Cons.IH[of "if mtype m = ToolUse then insert (toolId m) S else S" n] by simp
    then show ?thesis using Suc by (auto simp: used_Cons split: if_splits)
  qed
qed

lemma settle_forEach:
  assumes "\<And>x s. P s \<Longrightarrow> P (settle (f x s))" and "P s"
  shows "P (settle (forEach f xs s))"
  using assms(2)
proof (induction xs arbitrary: s)
  case Nil
  then show ?case by simp
next
  case (Cons x xs)
  from assms(1)[OF Cons.prems, of x] show ?case
    by (cases "f x s") (simp_all add: Cons.IH)
qed

lemma begin_tool_inv: "tool_inv U ls \<Longrightarrow> tool_inv U (begin_tool rt now item ls)"
  by (auto simp: tool_inv_def begin_tool_def Let_def rfu_append covered_def map_get_map_set)

lemma complete_tool_inv:
  "tool_inv U ls \<Longrightarrow> map_get (currentToolExecutions (fst ls)) (jget item ''tool_use_id'') = Some te \<Longrightarrow>
     tool_inv U (complete_tool rt now item te ls)"
  by (auto simp: tool_inv_def complete_tool_def Let_def rfu_append covered_def map_get_map_set)

lemma add_plain_inv:
  "tool_inv U ls \<Longrightarrow> mtype m \<noteq> ToolUse \<Longrightarrow> toolId m = JUndefined \<Longrightarrow>
     tool_inv U (fst ls, addMessage rt now m (snd ls))"
  by (auto simp: tool_inv_def rfu_append covered_def)

lemma on_tool_use_item_inv:
  "tool_inv U ls \<Longrightarrow> tool_inv U (settle (on_tool_use_item rt now item ls))"
  by (simp add: on_tool_use_item_def begin_tool_inv)

lemma on_tool_result_item_inv:
  "tool_inv U ls \<Longrightarrow> tool_inv U (settle (on_tool_result_item rt now item ls))"
  by (auto simp: on_tool_result_item_def Let_def complete_tool_inv add_plain_inv todo_message_def
           split: option.splits)

lemma on_debug_cases:
  "on_debug rt now p ls =
     (let content = jget (jget (jget p ''data'') ''message'') ''content'' in
      if jget (jget p ''data'') ''type'' = JStr ''assistant'' \<and> truthy content \<and> isArray content
      then forEach (on_tool_use_item rt now) (elements content) ls
      else if jget (jget p ''data'') ''type'' = JStr ''user'' \<and> truthy content \<and> isArray content
      then forEach (on_tool_result_item rt now) (elements content) ls
      else Normal ls)"
  by (simp add: on_debug_def Let_def split: outcome.splits)

lemma on_debug_inv: "tool_inv U ls \<Longrightarrow> tool_inv U (settle (on_debug rt now p ls))"
  by (simp add: on_debug_cases Let_def
        settle_forEach[where P="tool_inv U", OF on_tool_use_item_inv]
        settle_forEach[where P="tool_inv U", OF on_tool_result_item_inv])

lemma on_text_inv: "tool_inv U ls \<Longrightarrow> tool_inv U (on_text rt now p ls)"
  by (cases "currentAssistantMessage (fst ls)")
     (auto simp: tool_inv_def on_text_def open_assistant_def Let_def rfu_append covered_def)

lemma tool_inv_flag [simp]:
  "tool_inv U (l, s\<lparr>isGenerating := g\<rparr>) = tool_inv U (l, s)"
  by (simp add: tool_inv_def covered_def)

lemma on_parsed_inv:
  assumes "tool_inv U ls"
  shows "tool_inv U (settle (on_parsed rt now p ls))"
proof -
  have "tool_inv U (fst ls, on_init rt now p (snd ls))"
    using assms by (simp add: on_init_def add_plain_inv)
  moreover have "tool_inv U (fst ls, on_result rt now p (snd ls))"
    using assms by (simp add: on_result_def add_plain_inv)
  moreover have "tool_inv U (fst ls, on_error rt now p (snd ls))"
    using assms by (simp add: on_error_def add_plain_inv)
  ultimately show ?thesis
    using assms by (simp add: on_parsed_def on_text_inv on_debug_inv)
qed

lemma on_line_inv: "tool_inv U ls \<Longrightarrow> tool_inv U (on_line rt now line ls)"
  by (cases ls) (auto simp: on_line_def on_parsed_inv Let_def split: option.splits)

lemma on_lines_inv: "tool_inv U ls \<Longrightarrow> tool_inv U (on_lines rt now lines ls)"
  by (induction lines arbitrary: ls) (simp_all add: on_line_inv)

lemma on_chunk_inv: "tool_inv U ls \<Longrightarrow> tool_inv U (on_chunk rt now chunk ls)"
  by (simp add: on_chunk_def on_lines_inv)

lemma covered_mono:
  "covered l s \<Longrightarrow> used (messages s) \<subseteq> used (messages s') \<Longrightarrow> covered l s'"
  by (auto simp: covered_def)

lemma log_inv_plain:
  assumes "log_inv (s, cs)" and "mtype m \<noteq> ToolUse" and "toolId m = JUndefined"
    and "set cs' \<subseteq> insert Ended (insert Fetching (set cs))"
  shows "log_inv ((addMessage rt now m s)\<lparr>input := v, isGenerating := g\<rparr>, cs')"
  using assms by (auto simp: log_inv_def rfu_append covered_def)

lemma set_update_cases: "x \<in> set (xs[i := y]) \<Longrightarrow> x = y \<or> x \<in> set xs"
  by (metis insertE set_update_subset_insert subsetD)

lemma step_inv: "log_inv st \<Longrightarrow> log_inv (step rt a st)"
proof (cases st)
  case (Pair s cs)
  assume inv: "log_inv st"
  show ?thesis
  proof (cases a)
    case (SetInput v)
    with inv Pair show ?thesis by (simp add: log_inv_def covered_def)
  next
    case (Submit now hp)
    with inv Pair show ?thesis
      by (auto simp: log_inv_def covered_def begin_submit_def rfu_append)
  next
    case (FetchFailed i now err)
    with inv Pair show ?thesis
      by (auto simp: log_inv_def covered_def on_failure_def Let_def rfu_append
               dest!: set_update_cases)
  next
    case (FetchOk i)
    with inv Pair show ?thesis
      by (auto simp: log_inv_def covered_def initial_locals_def map_get_def dest!: set_update_cases)
  next
    case (Chunk i now chunk)
    show ?thesis
    proof (cases "i < length cs")
      case False
      with inv Pair Chunk show ?thesis by simp
    next
      case True
      show ?thesis
      proof (cases "cs ! i")
        case (Reading l)
        obtain l1 s1 where r: "on_chunk rt now chunk (l, s) = (l1, s1)"
          by (cases "on_chunk rt now chunk (l, s)")
        from True Reading have "Reading l \<in> set cs" by (metis nth_mem)
        with inv Pair have "tool_inv (used (messages s)) (l, s)"
          by (simp add: log_inv_def tool_inv_def)
        from on_chunk_inv[OF this, of rt now chunk] r
        have after: "used (messages s) \<subseteq> used (messages s1)"
          "results_follow_uses {} (messages s1)" "covered l1 s1"
          by (simp_all add: tool_inv_def)
        have "covered l' s1" if "Reading l' \<in> set (cs[i := Reading l1])" for l'
          using set_update_cases[OF that] after inv Pair
          by (auto simp: log_inv_def intro: covered_mono)
        with after True Reading Pair Chunk r show ?thesis
          by (simp add: log_inv_def)
      qed (use inv Pair Chunk True in simp_all)
    qed
  next
    case (ReadDone i)
    with inv Pair show ?thesis
      by (auto simp: log_inv_def split: call.splits dest!: set_update_cases)
  next
    case (ReadFailed i now err)
    with inv Pair show ?thesis
      by (auto simp: log_inv_def covered_def on_failure_def Let_def rfu_append
               split: call.splits dest!: set_update_cases)
  next
    case Stop
    with inv Pair show ?thesis by (simp add: log_inv_def covered_def stop_def)
  qed
qed

lemma run_inv: "log_inv st \<Longrightarrow> log_inv (run rt acts st)"
  by (induction acts arbitrary: st) (simp_all add: step_inv)

lemma used_nth: "k \<in> used (take j ms) \<Longrightarrow> \<exists>i<j. mtype (ms ! i) = ToolUse \<and> toolId (ms ! i) = k"
proof -
  assume "k \<in> used (take j ms)"
  then obtain m where m: "m \<in> set (take j ms)" "mtype m = ToolUse" "toolId m = k"
    by (auto simp: used_def)
  then obtain i where "i < length (take j ms)" "take j ms ! i = m"
    by (auto simp: in_set_conv_nth)
  with m show ?thesis by (intro exI[of _ i]) auto
qed

text \<open>
  Claim C4. In every state the component reaches, by any interleaving of submissions,
  responses, chunks, failures and stops, a \<^verbatim>\<open>tool_result\<close> message that carries an
  invocation id stands after a \<^verbatim>\<open>tool_use\<close> message with the same id.
\<close>

theorem tool_result_follows_its_tool_use:
  assumes "j < length (messages (fst (run rt acts initial)))"
    and "mtype (messages (fst (run rt acts initial)) ! j) = ToolResult"
    and "toolId (messages (fst (run rt acts initial)) ! j) \<noteq> JUndefined"
  shows "\<exists>i<j. mtype (messages (fst (run rt acts initial)) ! i) = ToolUse
            \<and> toolId (messages (fst (run rt acts initial)) ! i)
                = toolId (messages (fst (run rt acts initial)) ! j)"
proof -
  have "log_inv initial" by (simp add: log_inv_def initial_def)
  then have "results_follow_uses {} (messages (fst (run rt acts initial)))"
    using run_inv[of initial rt acts] by (simp add: log_inv_def)
  from rfu_nth[OF this assms] show ?thesis by (simp add: used_nth)
qed

text \<open>
  Claim C4 at Scenario B: after the user's message, the \<^verbatim>\<open>tool_use\<close> frame and the
  \<^verbatim>\<open>tool_result\<close> frame for \<^verbatim>\<open>t1\<close>, the result is the third message and its
  \<^verbatim>\<open>tool_use\<close> stands before it.
\<close>

theorem tool_result_follows_its_tool_use_witness:
  \<open>2 < length (messages (fst (run node
      [SetInput ''list the files'', Submit 1 True, FetchOk 0,
       Chunk 0 2 ''data: {"type":"debug","data":{"type":"assistant","message":{"content":[{"type":"tool_use","id":"t1","name":"Bash","input":{"command":"ls"}}]}}}'',
       Chunk 0 3 ''data: {"type":"debug","data":{"type":"user","message":{"content":[{"type":"tool_result","tool_use_id":"t1","content":"a.txt","is_error":false}]}}}'']
      initial)))
   \<and> map (\<lambda>m. (mtype m, toolId m)) (messages (fst (run node
      [SetInput ''list the files'', Submit 1 True, FetchOk 0,
       Chunk 0 2 ''data: {"type":"debug","data":{"type":"assistant","message":{"content":[{"type":"tool_use","id":"t1","name":"Bash","input":{"command":"ls"}}]}}}'',
       Chunk 0 3 ''data: {"type":"debug","data":{"type":"user","message":{"content":[{"type":"tool_result","tool_use_id":"t1","content":"a.txt","is_error":false}]}}}'']
      initial)))
     = [(User, JUndefined), (ToolUse, JStr ''t1''), (ToolResult, JStr ''t1'')]
   \<and> (\<exists>i<2. mtype (messages (fst (run node
      [SetInput ''list the files'', Submit 1 True, FetchOk 0,
       Chunk 0 2 ''data: {"type":"debug","data":{"type":"assistant","message":{"content":[{"type":"tool_use","id":"t1","name":"Bash","input":{"command":"ls"}}]}}}'',
       Chunk 0 3 ''data: {"type":"debug","data":{"type":"user","message":{"content":[{"type":"tool_result","tool_use_id":"t1","content":"a.txt","is_error":false}]}}}'']
      initial)) ! i) = ToolUse
     \<and> toolId (messages (fst (run node
      [SetInput ''list the files'', Submit 1 True, FetchOk 0,
       Chunk 0 2 ''data: {"type":"debug","data":{"type":"assistant","message":{"content":[{"type":"tool_use","id":"t1","name":"Bash","input":{"command":"ls"}}]}}}'',
       Chunk 0 3 ''data: {"type":"debug","data":{"type":"user","message":{"content":[{"type":"tool_result","tool_use_id":"t1","content":"a.txt","is_error":false}]}}}'']
      initial)) ! i) = JStr ''t1'')\<close>
proof -
  let ?acts = \<open>[SetInput ''list the files'', Submit 1 True, FetchOk 0,
       Chunk 0 2 ''data: {"type":"debug","data":{"type":"assistant","message":{"content":[{"type":"tool_use","id":"t1","name":"Bash","input":{"command":"ls"}}]}}}'',
       Chunk 0 3 ''data: {"type":"debug","data":{"type":"user","message":{"content":[{"type":"tool_result","tool_use_id":"t1","content":"a.txt","is_error":false}]}}}'']\<close>
  let ?log = "messages (fst (run node ?acts initial))"
  have sh: "map (\<lambda>m. (mtype m, toolId m)) ?log
      = [(User, JUndefined), (ToolUse, JStr ''t1''), (ToolResult, JStr ''t1'')]"
    by code_simp
  from arg_cong[OF sh, of length] have h1: "2 < length ?log"
    by simp
  from arg_cong[OF sh, of "\<lambda>xs. xs ! 2"] h1 have e: "(mtype (?log ! 2), toolId (?log ! 2)) = (ToolResult, JStr ''t1'')"
    by simp
  from e have h2: "mtype (?log ! 2) = ToolResult" and id: "toolId (?log ! 2) = JStr ''t1''"
    by simp_all
  from id have h3: "toolId (?log ! 2) \<noteq> JUndefined" by simp
  from tool_result_follows_its_tool_use[OF h1 h2 h3] h1 sh show ?thesis
    unfolding id by blast
qed

section \<open>The server's stream\<close>

lemma payloads_append [simp]: "payloads (xs @ ys) = payloads xs @ payloads ys"
  by (induction xs rule: payloads.induct) simp_all

lemma text_events_append [simp]: "text_events (xs @ ys) = text_events xs @ text_events ys"
  by (simp add: text_events_def)

lemma text_events_single [simp]:
  "text_events [Data v] = (if jget v ''type'' = JStr ''text'' then [v] else [])"
  "text_events [DoneMark] = []"
  by (simp_all add: text_events_def)

lemma accumulated_snoc:
  assumes "accumulated rt tes"
    and "jget v ''fullText'' = JStr (concat (map (text_of rt) tes) @ text_of rt v)"
  shows "accumulated rt (tes @ [v])"
  unfolding accumulated_def
proof (intro allI impI)
  fix n assume n: "n < length (tes @ [v])"
  show "jget ((tes @ [v]) ! n) ''fullText''
          = JStr (concat (map (text_of rt) (take (Suc n) (tes @ [v]))))"
  proof (cases "n < length tes")
    case True
    with assms(1) show ?thesis by (simp add: accumulated_def nth_append)
  next
    case False
    with n have "n = length tes" by simp
    with assms(2) show ?thesis by simp
  qed
qed

lemma emit_plain:
  "emission_ok rt st \<Longrightarrow> jget v ''type'' \<noteq> JStr ''text'' \<Longrightarrow> emission_ok rt (emit v st)"
  by (simp add: emission_ok_def emit_def)

lemma emit_text:
  assumes "emission_ok rt st"
  shows "emission_ok rt
     (emit (JObj ((''type'', JStr ''text'') # (''text'', t) #
                 (''fullText'', JStr (fullResponse st @ js_to_string rt t)) # rest))
        (st\<lparr>fullResponse := fullResponse st @ js_to_string rt t\<rparr>))"
  using assms
  by (auto simp: emission_ok_def emit_def text_of_def intro!: accumulated_snoc)

lemma on_sdk_chunk_ok:
  "emission_ok rt st \<Longrightarrow> emission_ok rt (settle (on_sdk_chunk rt sid chunk st))"
  by (simp add: on_sdk_chunk_def Let_def emit_plain emit_text)

lemma stream_turn_ok: "emission_ok rt (fst (stream_turn rt te sid message chunks failure))"
proof -
  have start: "emission_ok rt \<lparr>fullResponse = [], written = []\<rparr>"
    by (simp add: emission_ok_def accumulated_def text_events_def)
  have "emission_ok rt (settle (forEach (on_sdk_chunk rt sid) chunks \<lparr>fullResponse = [], written = []\<rparr>))"
    by (rule settle_forEach[where P="emission_ok rt"]) (simp_all add: on_sdk_chunk_ok start)
  with start show ?thesis
    by (cases "as_string message") (auto simp: stream_turn_def split: outcome.splits)
qed

lemma chat_handler_text_events:
  "text_events (wire_of (chat_handler rt te projectPath sid message chunks failure)) = []
   \<or> text_events (wire_of (chat_handler rt te projectPath sid message chunks failure))
       = text_events (written (fst (stream_turn rt te sid message chunks failure)))"
  by (auto simp: chat_handler_def handler_catch_def text_events_def
           split: prod.splits option.splits)

lemma chat_handler_accumulated:
  "accumulated rt (text_events (wire_of (chat_handler rt te projectPath sid message chunks failure)))"
  using stream_turn_ok[of rt te sid message chunks failure]
        chat_handler_text_events[of rt te projectPath sid message chunks failure]
  by (auto simp: emission_ok_def accumulated_def)

text \<open>
  Claim C10. In what the handler of \<^verbatim>\<open>/api/chat\<close> writes, the \<^verbatim>\<open>fullText\<close> of every
  \<^verbatim>\<open>text\<close> event is the concatenation, in the order written, of the \<^verbatim>\<open>text\<close> fields of
  the \<^verbatim>\<open>text\<close> events up to and including it (a \<^verbatim>\<open>text\<close> that is a string is appended
  as it is; \<^verbatim>\<open>+=\<close> converts any other value to a string), and so the lengths of the
  \<^verbatim>\<open>fullText\<close>s never decrease. This holds however the turn ends.
\<close>

theorem full_text_is_the_running_concatenation:
  assumes "n < length (text_events
              (wire_of (chat_handler rt te projectPath sid message chunks failure)))"
  shows "jget (text_events (wire_of (chat_handler rt te projectPath sid message chunks failure)) ! n)
           ''fullText''
         = JStr (concat (map (\<lambda>v. js_to_string rt (jget v ''text''))
             (take (Suc n)
                (text_events (wire_of (chat_handler rt te projectPath sid message chunks failure))))))
       \<and> (\<forall>i\<le>n. \<exists>a b.
             jget (text_events (wire_of (chat_handler rt te projectPath sid message chunks failure)) ! i)
               ''fullText'' = JStr a
           \<and> jget (text_events (wire_of (chat_handler rt te projectPath sid message chunks failure)) ! n)
               ''fullText'' = JStr b
           \<and> length a \<le> length b)"
proof -
  let ?tes = "text_events (wire_of (chat_handler rt te projectPath sid message chunks failure))"
  let ?cat = "\<lambda>k. concat (map (text_of rt) (take (Suc k) ?tes))"
  have acc: "accumulated rt ?tes" by (rule chat_handler_accumulated)
  then have full: "jget (?tes ! k) ''fullText'' = JStr (?cat k)" if "k < length ?tes" for k
    using that by (simp add: accumulated_def)
  have mono: "length (?cat i) \<le> length (?cat n)" if "i \<le> n" for i
  proof -
    from that have "take (Suc n) ?tes = take (Suc i) ?tes @ drop (Suc i) (take (Suc n) ?tes)"
      by (metis append_take_drop_id min.absorb1 take_take Suc_le_mono)
    then have "?cat n = ?cat i @ concat (map (text_of rt) (drop (Suc i) (take (Suc n) ?tes)))"
      by (metis concat_append map_append)
    then show ?thesis by simp
  qed
  have "\<exists>a b. jget (?tes ! i) ''fullText'' = JStr a \<and> jget (?tes ! n) ''fullText'' = JStr b
          \<and> length a \<le> length b" if "i \<le> n" for i
    using full[of i] full[OF assms] mono[OF that] that assms by simp
  with full[OF assms] show ?thesis
    by (simp add: text_of_def[abs_def])
qed

text \<open>
  Claim C10 at a turn of two text chunks, \<^verbatim>\<open>Hel\<close> as a legacy text chunk and \<^verbatim>\<open>lo\<close> in
  an assistant message: the second event's \<^verbatim>\<open>fullText\<close> is \<^verbatim>\<open>Hello\<close>.
\<close>

theorem full_text_is_the_running_concatenation_witness:
  "chat_handler node ''TypeError'' JUndefined (JStr ''s1'') (JStr ''hello'')
      [JObj [(''type'', JStr ''text''), (''text'', JStr ''Hel'')],
       JObj [(''type'', JStr ''assistant''),
             (''message'', JObj [(''id'', JStr ''m1''),
                (''content'', JArr [JObj [(''type'', JStr ''text''), (''text'', JStr ''lo'')]])])]]
      None
     = EventStream
        [Data (JObj [(''type'', JStr ''text''), (''text'', JStr ''Hel''), (''fullText'', JStr ''Hel'')]),
         Data (JObj [(''type'', JStr ''text''), (''text'', JStr ''lo''), (''fullText'', JStr ''Hello''),
                     (''messageId'', JStr ''m1'')]),
         DoneMark]
   \<and> jget (text_events
        [Data (JObj [(''type'', JStr ''text''), (''text'', JStr ''Hel''), (''fullText'', JStr ''Hel'')]),
         Data (JObj [(''type'', JStr ''text''), (''text'', JStr ''lo''), (''fullText'', JStr ''Hello''),
                     (''messageId'', JStr ''m1'')]),
         DoneMark] ! 1) ''fullText''
     = JStr (concat (map (\<lambda>v. js_to_string node (jget v ''text''))
        (take (Suc 1) (text_events
        [Data (JObj [(''type'', JStr ''text''), (''text'', JStr ''Hel''), (''fullText'', JStr ''Hel'')]),
         Data (JObj [(''type'', JStr ''text''), (''text'', JStr ''lo''), (''fullText'', JStr ''Hello''),
                     (''messageId'', JStr ''m1'')]),
         DoneMark]))))"
proof -
  let ?ws = "[Data (JObj [(''type'', JStr ''text''), (''text'', JStr ''Hel''), (''fullText'', JStr ''Hel'')]),
         Data (JObj [(''type'', JStr ''text''), (''text'', JStr ''lo''), (''fullText'', JStr ''Hello''),
                     (''messageId'', JStr ''m1'')]),
         DoneMark]"
  let ?chunks = "[JObj [(''type'', JStr ''text''), (''text'', JStr ''Hel'')],
       JObj [(''type'', JStr ''assistant''),
             (''message'', JObj [(''id'', JStr ''m1''),
                (''content'', JArr [JObj [(''type'', JStr ''text''), (''text'', JStr ''lo'')]])])]]"
  have h1: "chat_handler node ''TypeError'' JUndefined (JStr ''s1'') (JStr ''hello'') ?chunks None
              = EventStream ?ws"
    by code_simp
  have h2: "1 < length (text_events ?ws)"
    by (simp add: text_events_def)
  from full_text_is_the_running_concatenation
         [of 1 node "''TypeError''" JUndefined "JStr ''s1''" "JStr ''hello''" ?chunks None]
       h1 h2
  show ?thesis by simp
qed

text \<open>
  On every \<^verbatim>\<open>text\<close> event the handler writes whose \<^verbatim>\<open>text\<close> is a string, the client's
  \<^verbatim>\<open>parsed.fullText || parsed.text\<close> is the \<^verbatim>\<open>fullText\<close>: an empty \<^verbatim>\<open>fullText\<close> comes with an
  empty \<^verbatim>\<open>text\<close>.
\<close>

lemma written_full_text_wins:
  assumes "n < length (text_events
              (wire_of (chat_handler rt te projectPath sid message chunks failure)))"
    and "jget (text_events (wire_of (chat_handler rt te projectPath sid message chunks failure)) ! n)
           ''text'' = JStr t"
  shows "js_or
      (jget (text_events (wire_of (chat_handler rt te projectPath sid message chunks failure)) ! n)
         ''fullText'')
      (jget (text_events (wire_of (chat_handler rt te projectPath sid message chunks failure)) ! n)
         ''text'')
    = jget (text_events (wire_of (chat_handler rt te projectPath sid message chunks failure)) ! n)
        ''fullText''"
proof -
  let ?tes = "text_events (wire_of (chat_handler rt te projectPath sid message chunks failure))"
  from assms(2) have tn: "text_of rt (?tes ! n) = t"
    by (simp add: text_of_def js_to_string_def)
  have "accumulated rt ?tes" by (rule chat_handler_accumulated)
  with assms(1) have "jget (?tes ! n) ''fullText''
      = JStr (concat (map (text_of rt) (take (Suc n) ?tes)))"
    by (simp add: accumulated_def)
  also from assms(1) have "take (Suc n) ?tes = take n ?tes @ [?tes ! n]"
    by (rule take_Suc_conv_app_nth)
  finally have "jget (?tes ! n) ''fullText'' = JStr (concat (map (text_of rt) (take n ?tes)) @ t)"
    using tn by simp
  with assms(2) show ?thesis
    by (cases "concat (map (text_of rt) (take n ?tes)) @ t = []") (simp_all add: js_or_def)
qed

text \<open>
  The outcomes of the handler of \<^verbatim>\<open>/api/chat\<close> once the request has passed the checks made
  before the \<^verbatim>\<open>try\<close>: the handler's own TypeErrors and every thrown value that is not
  nullish are written as an \<^verbatim>\<open>error\<close> event followed by the sentinel; a nullish thrown
  value leaves the handler.
\<close>

lemma chat_handler_outcomes:
  assumes "truthy message" and "\<not> truthy projectPath \<or> as_string projectPath \<noteq> None"
  shows "chat_handler rt te projectPath sid message chunks failure =
     (case as_string message of
        None \<Rightarrow>
          EventStream [Data (JObj [(''type'', JStr ''error''), (''error'', JStr te)]), DoneMark]
      | Some m \<Rightarrow>
          (case forEach (on_sdk_chunk rt sid) chunks \<lparr>fullResponse = [], written = []\<rparr> of
             Threw st \<Rightarrow>
               EventStream (written st @
                 [Data (JObj [(''type'', JStr ''error''), (''error'', JStr te)]), DoneMark])
           | Normal st \<Rightarrow>
               (case failure of
                  None \<Rightarrow> EventStream (written st @ [DoneMark])
                | Some err \<Rightarrow>
                    if nullish err then Rejected (written st)
                    else EventStream (written st @
                      [Data (JObj [(''type'', JStr ''error''), (''error'', jget err ''message'')]),
                       DoneMark]))))"
  using assms
  by (auto simp: chat_handler_def stream_turn_def handler_catch_def type_error_def
           split: option.splits outcome.splits)

lemma chat_handler_before_the_stream:
  "\<not> truthy message \<Longrightarrow>
     chat_handler rt te projectPath sid message chunks failure
       = Json 400 (JObj [(''error'', JStr ''Missing message'')])"
  "truthy message \<Longrightarrow> truthy projectPath \<Longrightarrow> as_string projectPath = None \<Longrightarrow>
     chat_handler rt te projectPath sid message chunks failure = Rejected []"
  by (simp_all add: chat_handler_def)

text \<open>
  The outcomes of the route of \<^verbatim>\<open>chat.ts\<close> once the body has passed its check: always the
  event stream ending in the sentinel, and when the backend's iterator throws, whatever
  the value, the last event before the sentinel is an \<^verbatim>\<open>error\<close> event.
\<close>

lemma chat_route_outcomes:
  assumes "truthy projectPath" and "truthy message"
  shows "chat_route te projectPath message chunks failure =
     (case as_string message of
        None \<Rightarrow>
          EventStream [Data (JObj [(''type'', JStr ''error''),
                         (''error'', js_or (JStr te) (JStr ''Unknown error occurred''))]),
                       DoneMark]
      | Some m \<Rightarrow>
          (case failure of
             None \<Rightarrow> EventStream (map Data chunks @ [DoneMark])
           | Some err \<Rightarrow>
               EventStream (map Data chunks @
                 [Data (JObj [(''type'', JStr ''error''),
                    (''error'',
                     js_or (if nullish err then JStr te else jget err ''message'')
                       (JStr ''Unknown error occurred''))]),
                  DoneMark])))"
  using assms
  by (simp add: chat_route_def streamChatResponse_def route_catch_def type_error_def
           split: option.splits)


text \<open>
  The route of \<^verbatim>\<open>chat.ts\<close> at the same backend: the generator's \<^verbatim>\<open>catch\<close> throws on
  \<^verbatim>\<open>null\<close>, the route's \<^verbatim>\<open>catch\<close> reports that TypeError as an \<^verbatim>\<open>error\<close> event, and the
  sentinel follows.
\<close>

lemma chat_route_reports_thrown_null:
  "chat_route ''Cannot read properties of null'' (JStr ''/p'') (JStr ''hello'')
      [JObj [(''type'', JStr ''text''), (''text'', JStr ''Hel'')]] (Some JNull)
     = EventStream
        [Data (JObj [(''type'', JStr ''text''), (''text'', JStr ''Hel'')]),
         Data (JObj [(''type'', JStr ''error''),
                     (''error'', JStr ''Cannot read properties of null'')]),
         DoneMark]"
  by code_simp

section \<open>Matched tool frames\<close>

lemma use_before_result_append: "use_before_result k ms \<Longrightarrow> use_before_result k (ms @ more_ms)"
  unfolding use_before_result_def
  by (elim exE conjE, rule_tac x=i in exI, rule_tac x=j in exI) (simp add: nth_append)

lemma one_use_nth:
  "length (uses_of k ms) = 1 \<Longrightarrow> \<exists>i<length ms. mtype (ms ! i) = ToolUse \<and> toolId (ms ! i) = k"
proof -
  assume "length (uses_of k ms) = 1"
  then have "uses_of k ms \<noteq> []" by auto
  then obtain m where "m \<in> set ms" "mtype m = ToolUse" "toolId m = k"
    by (auto simp: uses_of_def filter_empty_conv)
  then show ?thesis by (auto simp: in_set_conv_nth)
qed

lemma use_then_result:
  assumes "length (uses_of k ms) = 1" and "mtype m = ToolResult" and "toolId m = k"
  shows "use_before_result k (ms @ m # extra)"
proof -
  from one_use_nth[OF assms(1)] obtain i where
    i: "i < length ms" "mtype (ms ! i) = ToolUse" "toolId (ms ! i) = k" by blast
  show ?thesis
    unfolding use_before_result_def
    by (rule exI[of _ i], rule exI[of _ "length ms"]) (use i assms in \<open>simp add: nth_append\<close>)
qed

lemma usable_defined: "usable k \<Longrightarrow> k \<noteq> JUndefined"
  by (auto simp: usable_def)

lemma pairing_use:
  assumes "pairing P D t new" and "usable k" and "k \<notin> P" and "k \<notin> D"
    and "mtype m = ToolUse" and "toolId m = k"
  shows "pairing (insert k P) D (map_set k te t) (new @ [m])"
  using assms unfolding pairing_def
  by (auto simp: map_get_map_set uses_of_def results_of_def usable_def
           intro: use_before_result_append)

lemma pairing_result:
  assumes "pairing P D t new" and "k \<in> P" and "te_isComplete te"
    and "mtype m = ToolResult" and "toolId m = k"
    and "\<forall>x\<in>set extra. mtype x = ToolResult \<and> toolId x = JUndefined"
  shows "pairing (P - {k}) (insert k D) (map_set k te t) (new @ m # extra)"
proof -
  from assms(1,2) have uk: "usable k" and one: "length (uses_of k new) = 1"
    and none: "results_of k new = []"
    by (auto simp: pairing_def)
  have ex_u: "uses_of k' extra = []" for k'
    using assms(6) by (auto simp: uses_of_def filter_empty_conv)
  have ex_r: "results_of k' extra = []" if "k' \<noteq> JUndefined" for k'
    using assms(6) that by (auto simp: results_of_def filter_empty_conv)
  have u: "uses_of k' (new @ m # extra) = uses_of k' new" for k'
    using ex_u[of k'] assms(4) by (simp add: uses_of_def)
  have r: "results_of k' (new @ m # extra) = results_of k' new @ (if k' = k then [m] else [])"
    if "k' \<noteq> JUndefined" for k'
    using ex_r[OF that] assms(4,5) by (auto simp: results_of_def)
  have nref: "\<not> is_ref k" using uk by (simp add: usable_def)
  have ud: "k' \<noteq> JUndefined" if "usable k'" for k'
    using that by (rule usable_defined)
  show ?thesis
    unfolding pairing_def
  proof (intro conjI)
    show "\<forall>k' te'. map_get (map_set k te t) k' = Some te' \<longrightarrow> k' \<in> P - {k} \<union> insert k D"
      using assms(1) by (auto simp: pairing_def map_get_map_set split: if_splits)
    show "\<forall>k'\<in>P - {k}. (\<exists>te'. map_get (map_set k te t) k' = Some te')
            \<and> length (uses_of k' (new @ m # extra)) = 1 \<and> results_of k' (new @ m # extra) = []"
      using assms(1) by (auto simp: pairing_def map_get_map_set u r ud)
    show "\<forall>k'\<in>insert k D. (\<exists>te'. map_get (map_set k te t) k' = Some te' \<and> te_isComplete te')
            \<and> length (uses_of k' (new @ m # extra)) = 1
            \<and> length (results_of k' (new @ m # extra)) = 1
            \<and> use_before_result k' (new @ m # extra)"
    proof
      fix k' assume k': "k' \<in> insert k D"
      show "(\<exists>te'. map_get (map_set k te t) k' = Some te' \<and> te_isComplete te')
            \<and> length (uses_of k' (new @ m # extra)) = 1
            \<and> length (results_of k' (new @ m # extra)) = 1
            \<and> use_before_result k' (new @ m # extra)"
      proof (cases "k' = k")
        case True
        with one none uk nref assms(3,4,5) show ?thesis
          by (simp add: map_get_map_set u r ud use_then_result)
      next
        case False
        with k' assms(1) have "k' \<in> D" "usable k'" by (auto simp: pairing_def)
        with False assms(1) show ?thesis
          by (auto simp: pairing_def map_get_map_set u r ud intro: use_before_result_append)
      qed
    qed
    show "\<forall>k'. usable k' \<and> k' \<notin> P - {k} \<and> k' \<notin> insert k D \<longrightarrow>
            uses_of k' (new @ m # extra) = [] \<and> results_of k' (new @ m # extra) = []"
      using assms(1) by (auto simp: pairing_def u r ud)
    show "\<forall>k'\<in>P - {k} \<union> insert k D. usable k'"
      using assms(1) uk by (auto simp: pairing_def)
  qed
qed


lemma begin_tool_effect:
  "\<exists>te m. currentToolExecutions (fst (begin_tool rt now item ls))
            = map_set (jget item ''id'') te (currentToolExecutions (fst ls))
      \<and> messages (snd (begin_tool rt now item ls)) = messages (snd ls) @ [m]
      \<and> mtype m = ToolUse \<and> toolId m = jget item ''id''"
  unfolding begin_tool_def Let_def
  by (intro exI conjI) (simp, simp, simp_all)

lemma use_event_step:
  "\<exists>te m. currentToolExecutions (fst (settle (on_parsed rt now (tool_use_event k name inp) ls)))
            = map_set k te (currentToolExecutions (fst ls))
      \<and> messages (snd (settle (on_parsed rt now (tool_use_event k name inp) ls)))
            = messages (snd ls) @ [m]
      \<and> mtype m = ToolUse \<and> toolId m = k"
proof -
  let ?item = "JObj [(''type'', JStr ''tool_use''), (''id'', k), (''name'', name), (''input'', inp)]"
  have "settle (on_parsed rt now (tool_use_event k name inp) ls) = begin_tool rt now ?item ls"
    by (simp add: on_parsed_def tool_use_event_def on_debug_cases on_tool_use_item_def)
  with begin_tool_effect[of rt now ?item ls] show ?thesis by simp
qed

lemma complete_tool_effect:
  "\<exists>te m. currentToolExecutions (fst (complete_tool rt now item te0 ls))
            = map_set (jget item ''tool_use_id'') te (currentToolExecutions (fst ls))
      \<and> te_isComplete te
      \<and> messages (snd (complete_tool rt now item te0 ls)) = messages (snd ls) @ [m]
      \<and> mtype m = ToolResult \<and> toolId m = jget item ''tool_use_id''"
  unfolding complete_tool_def Let_def
  by (intro exI conjI) (simp, simp, simp, simp_all)

lemma result_item_step:
  assumes "map_get (currentToolExecutions (fst ls)) (jget item ''tool_use_id'') = Some te0"
    and "truthy (jget item ''tool_use_id'')" and "jget item ''type'' = JStr ''tool_result''"
  shows "\<exists>te m extra.
      currentToolExecutions (fst (settle (on_tool_result_item rt now item ls)))
        = map_set (jget item ''tool_use_id'') te (currentToolExecutions (fst ls))
      \<and> te_isComplete te
      \<and> messages (snd (settle (on_tool_result_item rt now item ls)))
        = messages (snd ls) @ m # extra
      \<and> mtype m = ToolResult \<and> toolId m = jget item ''tool_use_id''
      \<and> (\<forall>x\<in>set extra. mtype x = ToolResult \<and> toolId x = JUndefined)"
proof -
  from assms(3) have nn: "\<not> nullish item" by (cases item) simp_all
  let ?ls1 = "complete_tool rt now item te0 ls"
  from complete_tool_effect[of rt now item te0 ls] obtain te m where
    t: "currentToolExecutions (fst ?ls1)
          = map_set (jget item ''tool_use_id'') te (currentToolExecutions (fst ls))"
    and c: "te_isComplete te"
    and m: "messages (snd ?ls1) = messages (snd ls) @ [m]" "mtype m = ToolResult"
       "toolId m = jget item ''tool_use_id''"
    by blast
  have "settle (on_tool_result_item rt now item ls) = ?ls1
      \<or> settle (on_tool_result_item rt now item ls)
          = (fst ?ls1, addMessage rt now
               (todo_message rt now (jget (te_input te0) ''todos'')) (snd ?ls1))"
    using assms nn by (simp add: on_tool_result_item_def Let_def split: option.splits)
  then show ?thesis
  proof
    assume e: "settle (on_tool_result_item rt now item ls) = ?ls1"
    from t c m show ?thesis
      unfolding e by (intro exI[of _ te] exI[of _ m] exI[of _ "[]"]) simp
  next
    assume e: "settle (on_tool_result_item rt now item ls)
          = (fst ?ls1, addMessage rt now
               (todo_message rt now (jget (te_input te0) ''todos'')) (snd ?ls1))"
    have "\<exists>x. messages (addMessage rt now
               (todo_message rt now (jget (te_input te0) ''todos'')) (snd ?ls1))
             = messages (snd ls) @ m # [x] \<and> mtype x = ToolResult \<and> toolId x = JUndefined"
      by (simp add: m todo_message_def)
    then obtain x where x: "messages (addMessage rt now
               (todo_message rt now (jget (te_input te0) ''todos'')) (snd ?ls1))
             = messages (snd ls) @ m # [x]" "mtype x = ToolResult" "toolId x = JUndefined"
      by blast
    from t c m x show ?thesis
      unfolding e by (intro exI[of _ te] exI[of _ m] exI[of _ "[x]"]) simp
  qed
qed

lemma result_event_step:
  assumes "map_get (currentToolExecutions (fst ls)) k = Some te0" and "truthy k"
  shows "\<exists>te m extra.
      currentToolExecutions (fst (settle (on_parsed rt now (tool_result_event k result is_error) ls)))
        = map_set k te (currentToolExecutions (fst ls))
      \<and> te_isComplete te
      \<and> messages (snd (settle (on_parsed rt now (tool_result_event k result is_error) ls)))
        = messages (snd ls) @ m # extra
      \<and> mtype m = ToolResult \<and> toolId m = k
      \<and> (\<forall>x\<in>set extra. mtype x = ToolResult \<and> toolId x = JUndefined)"
proof -
  let ?item = "JObj [(''type'', JStr ''tool_result''), (''tool_use_id'', k),
                     (''content'', result), (''is_error'', is_error)]"
  have "settle (on_parsed rt now (tool_result_event k result is_error) ls)
          = settle (on_tool_result_item rt now ?item ls)"
    by (simp add: on_parsed_def tool_result_event_def on_debug_cases split: outcome.splits)
  with result_item_step[of ls ?item te0 rt now] assms show ?thesis by simp
qed


lemma paired_run:
  assumes "paired P D (map snd evs)"
    and "\<forall>e\<in>set evs. usable (event_id (snd e))"
    and "pairing (set P) (set D) (currentToolExecutions (fst ls)) new"
    and "messages (snd ls) = base @ new"
  shows "\<exists>new'. messages (snd (on_events rt (map (apsnd encode) evs) ls)) = base @ new'
     \<and> pairing {} (set D \<union> set P \<union> event_id ` snd ` set evs)
          (currentToolExecutions (fst (on_events rt (map (apsnd encode) evs) ls))) new'"
  using assms
proof (induction evs arbitrary: P D ls new)
  case Nil
  then show ?case by simp
next
  case (Cons ev evs)
  obtain now e where ev: "ev = (now, e)" by (cases ev)
  show ?case
  proof (cases e)
    case (Use k name inp)
    let ?ls1 = "settle (on_parsed rt now (tool_use_event k name inp) ls)"
    from Cons.prems(1) ev Use have fresh: "k \<notin> set P" "k \<notin> set D"
      and rest: "paired (k # P) D (map snd evs)" by simp_all
    from Cons.prems(2) ev Use have uk: "usable k" by simp
    from use_event_step[of rt now k name inp ls] obtain te m where
      st: "currentToolExecutions (fst ?ls1) = map_set k te (currentToolExecutions (fst ls))"
          "messages (snd ?ls1) = messages (snd ls) @ [m]" "mtype m = ToolUse" "toolId m = k"
      by blast
    from pairing_use[OF Cons.prems(3) uk fresh st(3,4), of te] st(1)
    have p1: "pairing (set (k # P)) (set D) (currentToolExecutions (fst ?ls1)) (new @ [m])"
      by simp
    from st(2) Cons.prems(4) have m1: "messages (snd ?ls1) = base @ (new @ [m])" by simp
    from Cons.prems(2) have us: "\<forall>e\<in>set evs. usable (event_id (snd e))" by simp
    from Cons.IH[OF rest us p1 m1] obtain new' where
      "messages (snd (on_events rt (map (apsnd encode) evs) ?ls1)) = base @ new'"
      "pairing {} (set D \<union> set (k # P) \<union> event_id ` snd ` set evs)
          (currentToolExecutions (fst (on_events rt (map (apsnd encode) evs) ?ls1))) new'"
      by blast
    moreover have "set D \<union> set (k # P) \<union> event_id ` snd ` set evs
        = set D \<union> set P \<union> event_id ` snd ` set (ev # evs)"
      using ev Use by auto
    ultimately show ?thesis using ev Use by auto
  next
    case (Res k result is_error)
    let ?ls1 = "settle (on_parsed rt now (tool_result_event k result is_error) ls)"
    from Cons.prems(1) ev Res have pend: "k \<in> set P"
      and rest: "paired (removeAll k P) (k # D) (map snd evs)" by simp_all
    from Cons.prems(3) pend obtain te0 where
      found: "map_get (currentToolExecutions (fst ls)) k = Some te0" and "usable k"
      by (auto simp: pairing_def)
    then have tk: "truthy k" by (simp add: usable_def)
    from result_event_step[OF found tk, of rt now result is_error] obtain te m extra where
      st: "currentToolExecutions (fst ?ls1) = map_set k te (currentToolExecutions (fst ls))"
          "te_isComplete te" "messages (snd ?ls1) = messages (snd ls) @ m # extra"
          "mtype m = ToolResult" "toolId m = k"
          "\<forall>x\<in>set extra. mtype x = ToolResult \<and> toolId x = JUndefined"
      by blast
    from pairing_result[OF Cons.prems(3) pend st(2,4,5,6)] st(1)
    have p1: "pairing (set (removeAll k P)) (set (k # D)) (currentToolExecutions (fst ?ls1))
                (new @ m # extra)"
      by simp
    from st(3) Cons.prems(4) have m1: "messages (snd ?ls1) = base @ (new @ m # extra)" by simp
    from Cons.prems(2) have us: "\<forall>e\<in>set evs. usable (event_id (snd e))" by simp
    from Cons.IH[OF rest us p1 m1] obtain new' where
      "messages (snd (on_events rt (map (apsnd encode) evs) ?ls1)) = base @ new'"
      "pairing {} (set (k # D) \<union> set (removeAll k P) \<union> event_id ` snd ` set evs)
          (currentToolExecutions (fst (on_events rt (map (apsnd encode) evs) ?ls1))) new'"
      by blast
    moreover have "set (k # D) \<union> set (removeAll k P) \<union> event_id ` snd ` set evs
        = set D \<union> set P \<union> event_id ` snd ` set (ev # evs)"
      using ev Res pend by auto
    ultimately show ?thesis using ev Res by auto
  qed
qed

text \<open>
  Claim C3, as the code has it. After a run of matched \<^verbatim>\<open>tool_use\<close> / \<^verbatim>\<open>tool_result\<close>
  frames with pairwise distinct, usable ids on a fresh turn, the log has only gained
  messages; the table is not emptied but holds no pending record, every record in it
  being marked complete; and for the id of every frame the table holds a completed
  record and the messages gained hold exactly one \<^verbatim>\<open>tool_use\<close> and exactly one
  \<^verbatim>\<open>tool_result\<close> message, the former before the latter.
\<close>

theorem matched_tool_pairs_are_completed_in_order:
  assumes "paired [] [] (map snd evs)"
    and "\<forall>e\<in>set evs. usable (event_id (snd e))"
  shows "\<exists>new.
      messages (snd (on_events rt (map (apsnd encode) evs) (initial_locals, s))) = messages s @ new
    \<and> (\<forall>k te. map_get (currentToolExecutions
                  (fst (on_events rt (map (apsnd encode) evs) (initial_locals, s)))) k = Some te
               \<longrightarrow> te_isComplete te)
    \<and> (\<forall>e\<in>set evs.
          (\<exists>te. map_get (currentToolExecutions
                  (fst (on_events rt (map (apsnd encode) evs) (initial_locals, s))))
                  (event_id (snd e)) = Some te \<and> te_isComplete te)
          \<and> length (uses_of (event_id (snd e)) new) = 1
          \<and> length (results_of (event_id (snd e)) new) = 1
          \<and> use_before_result (event_id (snd e)) new)"
proof -
  let ?end = "on_events rt (map (apsnd encode) evs) (initial_locals, s)"
  have start: "pairing (set []) (set []) (currentToolExecutions (fst (initial_locals, s))) []"
    by (simp add: pairing_def initial_locals_def map_get_def uses_of_def results_of_def)
  have base: "messages (snd (initial_locals, s)) = messages s @ []" by simp
  from paired_run[OF assms start base, of rt] obtain new where
    new: "messages (snd ?end) = messages s @ new"
    and p: "pairing {} (event_id ` snd ` set evs) (currentToolExecutions (fst ?end)) new"
    by auto
  from p have all: "te_isComplete te"
    if "map_get (currentToolExecutions (fst ?end)) k = Some te" for k te
    using that unfolding pairing_def by (metis Un_empty_left option.inject)
  from p have each: "(\<exists>te. map_get (currentToolExecutions (fst ?end)) k = Some te \<and> te_isComplete te)
      \<and> length (uses_of k new) = 1 \<and> length (results_of k new) = 1 \<and> use_before_result k new"
    if "k \<in> event_id ` snd ` set evs" for k
    using that unfolding pairing_def by blast
  from new all each show ?thesis
    by (intro exI[of _ new]) auto
qed

text \<open>Claim C3 as amended, at Scenario B.\<close>

theorem matched_tool_pairs_are_completed_in_order_witness:
  "paired [] [] (map snd
      [(2::nat, Use (JStr ''t1'') (JStr ''Bash'') (JObj [(''command'', JStr ''ls'')])),
       (3, Res (JStr ''t1'') (JStr ''a.txt'') (JBool False))])
   \<and> usable (JStr ''t1'')
   \<and> (\<exists>new. messages (snd (on_events node (map (apsnd encode)
         [(2::nat, Use (JStr ''t1'') (JStr ''Bash'') (JObj [(''command'', JStr ''ls'')])),
          (3, Res (JStr ''t1'') (JStr ''a.txt'') (JBool False))]) (initial_locals, fst initial)))
          = messages (fst initial) @ new
        \<and> length (uses_of (JStr ''t1'') new) = 1
        \<and> length (results_of (JStr ''t1'') new) = 1
        \<and> use_before_result (JStr ''t1'') new)"
proof -
  let ?evs = "[(2::nat, Use (JStr ''t1'') (JStr ''Bash'') (JObj [(''command'', JStr ''ls'')])),
       (3, Res (JStr ''t1'') (JStr ''a.txt'') (JBool False))]"
  have h1: "paired [] [] (map snd ?evs)" by simp
  have u: "usable (JStr ''t1'')" by (simp add: usable_def)
  then have h2: "\<forall>e\<in>set ?evs. usable (event_id (snd e))" by simp
  from matched_tool_pairs_are_completed_in_order[OF h1 h2, of node "fst initial"]
  obtain new where
    "messages (snd (on_events node (map (apsnd encode) ?evs) (initial_locals, fst initial)))
       = messages (fst initial) @ new"
    "\<forall>e\<in>set ?evs. length (uses_of (event_id (snd e)) new) = 1
          \<and> length (results_of (event_id (snd e)) new) = 1
          \<and> use_before_result (event_id (snd e)) new"
    by blast
  then have "\<exists>new. messages (snd (on_events node (map (apsnd encode) ?evs) (initial_locals, fst initial)))
          = messages (fst initial) @ new
        \<and> length (uses_of (JStr ''t1'') new) = 1
        \<and> length (results_of (JStr ''t1'') new) = 1
        \<and> use_before_result (JStr ''t1'') new"
    by (intro exI[of _ new]) simp
  with h1 u show ?thesis by blast
qed

text \<open>
  Claim C3 as stated fails in its first half: after Scenario B the table still has its
  entry for \<^verbatim>\<open>t1\<close>, next to the two messages in the log.
\<close>

theorem table_keeps_completed_tools_counterexample:
  \<open>map fst (currentToolExecutions (fst (on_chunks node
      [(2, ''data: {"type":"debug","data":{"type":"assistant","message":{"content":[{"type":"tool_use","id":"t1","name":"Bash","input":{"command":"ls"}}]}}}''),
       (3, ''data: {"type":"debug","data":{"type":"user","message":{"content":[{"type":"tool_result","tool_use_id":"t1","content":"a.txt","is_error":false}]}}}'')]
      (initial_locals, fst initial)))) = [JStr ''t1'']
   \<and> map (\<lambda>m. (mtype m, toolId m)) (messages (snd (on_chunks node
      [(2, ''data: {"type":"debug","data":{"type":"assistant","message":{"content":[{"type":"tool_use","id":"t1","name":"Bash","input":{"command":"ls"}}]}}}''),
       (3, ''data: {"type":"debug","data":{"type":"user","message":{"content":[{"type":"tool_result","tool_use_id":"t1","content":"a.txt","is_error":false}]}}}'')]
      (initial_locals, fst initial)))) = [(ToolUse, JStr ''t1''), (ToolResult, JStr ''t1'')]\<close>
  by code_simp

end
